theory Spec2Isabelle
  imports Main "HOL-Library.Multiset"
begin

section \<open>Shared vocabulary\<close>

text \<open>
  A C++ \<^verbatim>\<open>std::shared_ptr\<close> is modelled by the identity of the object it owns: a natural
  number stands for the address, \<open>None\<close> for \<^verbatim>\<open>nullptr\<close>. Two pointers compare equal
  (\<^verbatim>\<open>a.get() == b.get()\<close>) exactly when the values are equal.

  Undefined behaviour of the C++ source (dereferencing a null pointer, calling
  \<^verbatim>\<open>front()\<close> on an empty vector) is a value of type \<open>fault\<close>; a C++ exception is a
  value of type \<open>exn\<close>. Every function that can hit either returns a sum, \<open>Inl\<close> carrying
  the fault or exception.
\<close>

type_synonym timer_ptr = "nat option"

datatype fault = FrontOfEmptyVector | NullDereference

text \<open>
  \<^verbatim>\<open>rcl_ret_t\<close>: the return code of the external rcl layer. Its numeric values live in
  rcl's headers; the sources under study only compare a code with \<^verbatim>\<open>RCL_RET_OK\<close> and pass
  \<^verbatim>\<open>RCL_RET_BAD_ALLOC\<close> on, so every other code is \<open>RCL_RET_OTHER n\<close>.
\<close>

datatype rcl_ret_t = RCL_RET_OK | RCL_RET_BAD_ALLOC | RCL_RET_OTHER nat

text \<open>
  \<open>RclError ret msg\<close> is what \<^verbatim>\<open>rclcpp::exceptions::throw_from_rcl_error(ret, msg)\<close>
  throws; \<open>RuntimeError msg\<close> is \<^verbatim>\<open>std::runtime_error(msg)\<close>; \<open>StdBadAlloc\<close> is what a
  failing \<^verbatim>\<open>new\<close> expression throws.
\<close>

datatype exn = RclError rcl_ret_t string | RuntimeError string | StdBadAlloc

text \<open>A loop over a container whose body may fail: the first failure ends the loop.\<close>

fun for_each :: "('a \<Rightarrow> 's \<Rightarrow> 'e + 's) \<Rightarrow> 'a list \<Rightarrow> 's \<Rightarrow> 'e + 's" where
  "for_each body [] s = Inr s"
| "for_each body (x # xs) s =
     (case body x s of Inl e \<Rightarrow> Inl e | Inr s' \<Rightarrow> for_each body xs s')"


section \<open>The timers queue (struct TimersQueue)\<close>

text \<open>
  The state of the timer objects the queue points to: for every timer address, the value
  its \<^verbatim>\<open>time_until_trigger()\<close> returns at the current instant, in nanoseconds (negative
  when the timer is overdue). The source only compares these values, so they are
  mathematical integers.
\<close>

type_synonym trigger_store = "nat \<Rightarrow> int"

text \<open>\<^verbatim>\<open>std::chrono::nanoseconds::max()\<close>, the largest signed 64-bit count.\<close>

definition nanoseconds_max :: int where
  "nanoseconds_max = 9223372036854775807"

text \<open>
  Modelled from the spec: \<^verbatim>\<open>TimerBase::is_ready\<close> and \<^verbatim>\<open>TimerBase::execute_callback\<close>
  are declared in rclcpp/timer.hpp, which is not among the sources. The spec calls a timer
  due when its time until trigger is at most zero, and says that firing changes the
  timer's trigger time (a periodic timer reschedules itself). The parameter \<open>resched\<close>
  gives, for a timer and its time until trigger when fired, its time until trigger
  afterwards; firing one timer leaves every other timer object as it was.
\<close>

definition is_ready :: "trigger_store \<Rightarrow> nat \<Rightarrow> bool" where
  "is_ready \<sigma> a = (\<sigma> a \<le> 0)"

definition execute_callback :: "(nat \<Rightarrow> int \<Rightarrow> int) \<Rightarrow> nat \<Rightarrow> trigger_store \<Rightarrow> trigger_store" where
  "execute_callback resched a \<sigma> = \<sigma>(a := resched a (\<sigma> a))"

text \<open>
  \<^verbatim>\<open>timer_less_than_comparison\<close> orders two queue entries by
  \<^verbatim>\<open>timer1->time_until_trigger() < timer2->time_until_trigger()\<close>. \<open>trigger_key\<close> is the
  key it compares; the value at \<open>None\<close> is never used by a sort that succeeds on two or
  more entries.
\<close>

definition trigger_key :: "trigger_store \<Rightarrow> timer_ptr \<Rightarrow> int" where
  "trigger_key \<sigma> p = (case p of None \<Rightarrow> 0 | Some a \<Rightarrow> \<sigma> a)"

text \<open>
  \<^verbatim>\<open>reorder_queue\<close>: \<^verbatim>\<open>std::sort\<close> over the whole vector with that comparison. With two
  or more entries the comparison is called on every entry, and it dereferences both of its
  arguments, so a null entry is undefined behaviour; with fewer than two entries it is
  never called. \<^verbatim>\<open>std::sort\<close> leaves the order of entries with equal keys unspecified;
  the model fixes one such order (that of \<open>sort_key\<close>).
\<close>

definition reorder_queue :: "trigger_store \<Rightarrow> timer_ptr list \<Rightarrow> fault + timer_ptr list" where
  "reorder_queue \<sigma> q =
     (if 2 \<le> length q \<and> None \<in> set q then Inl NullDereference
      else Inr (sort_key (trigger_key \<sigma>) q))"

text \<open>\<^verbatim>\<open>add_timer\<close>: \<^verbatim>\<open>emplace_back\<close>, then \<^verbatim>\<open>reorder_queue\<close>.\<close>

definition add_timer :: "trigger_store \<Rightarrow> timer_ptr \<Rightarrow> timer_ptr list \<Rightarrow> fault + timer_ptr list" where
  "add_timer \<sigma> timer q = reorder_queue \<sigma> (q @ [timer])"

text \<open>
  \<^verbatim>\<open>get_head_timeout\<close>: \<^verbatim>\<open>min_timeout\<close> starts at the maximum, \<^verbatim>\<open>front()\<close> is read
  without a check for emptiness (undefined behaviour on an empty vector), and a non-null
  head overwrites \<^verbatim>\<open>min_timeout\<close> with its time until trigger.
\<close>

definition get_head_timeout :: "trigger_store \<Rightarrow> timer_ptr list \<Rightarrow> fault + int" where
  "get_head_timeout \<sigma> q =
     (case q of
        [] \<Rightarrow> Inl FrontOfEmptyVector
      | head # _ \<Rightarrow>
          (case head of
             None \<Rightarrow> Inr nanoseconds_max
           | Some a \<Rightarrow> Inr (\<sigma> a)))"

text \<open>
  The loop of \<^verbatim>\<open>execute_ready_timers\<close>. It returns the calls it made on timer objects, in
  order, and the timer state afterwards: \<open>Examined a\<close> is a call of \<^verbatim>\<open>is_ready\<close> on
  timer \<open>a\<close>, \<open>Executed a\<close> a call of \<^verbatim>\<open>execute_callback\<close>.
\<close>

datatype timer_event = Examined nat | Executed nat

fun ready_loop ::
  "(nat \<Rightarrow> int \<Rightarrow> int) \<Rightarrow> timer_ptr list \<Rightarrow> trigger_store \<Rightarrow> fault + (timer_event list \<times> trigger_store)"
where
  "ready_loop resched [] \<sigma> = Inr ([], \<sigma>)"
| "ready_loop resched (None # rest) \<sigma> = Inl NullDereference"
| "ready_loop resched (Some a # rest) \<sigma> =
     (if \<not> is_ready \<sigma> a then Inr ([Examined a], \<sigma>)
      else (case ready_loop resched rest (execute_callback resched a \<sigma>) of
              Inl e \<Rightarrow> Inl e
            | Inr (events, \<sigma>') \<Rightarrow> Inr (Examined a # Executed a # events, \<sigma>')))"

definition execute_ready_timers ::
  "(nat \<Rightarrow> int \<Rightarrow> int) \<Rightarrow> trigger_store \<Rightarrow> timer_ptr list
     \<Rightarrow> fault + (timer_event list \<times> trigger_store \<times> timer_ptr list)"
where
  "execute_ready_timers resched \<sigma> q =
     (case ready_loop resched q \<sigma> of
        Inl e \<Rightarrow> Inl e
      | Inr (events, \<sigma>') \<Rightarrow>
          (case reorder_queue \<sigma>' q of
             Inl e \<Rightarrow> Inl e
           | Inr q' \<Rightarrow> Inr (events, \<sigma>', q')))"

definition clear_all :: "timer_ptr list \<Rightarrow> timer_ptr list" where
  "clear_all q = []"

text \<open>\<^verbatim>\<open>remove_timer\<close>: erase at the first iterator whose pointer equals the argument's, then stop.\<close>

fun remove_timer :: "timer_ptr \<Rightarrow> timer_ptr list \<Rightarrow> timer_ptr list" where
  "remove_timer timer [] = []"
| "remove_timer timer (x # rest) = (if x = timer then rest else x # remove_timer timer rest)"




text \<open>
  Calls on one queue, from its construction on. \<open>ClockAdvance d\<close> is not a member of the
  struct: it is the clock moving on by \<open>d\<close> nanoseconds between two calls, which lowers
  every timer's time until trigger by \<open>d\<close>.
\<close>

datatype queue_call =
  AddTimer timer_ptr | RemoveTimer timer_ptr | ExecuteReadyTimers | ClearAll | ClockAdvance nat

fun queue_step ::
  "(nat \<Rightarrow> int \<Rightarrow> int) \<Rightarrow> queue_call \<Rightarrow> trigger_store \<times> timer_ptr list
     \<Rightarrow> fault + (trigger_store \<times> timer_ptr list)"
where
  "queue_step resched (AddTimer timer) (\<sigma>, q) =
     (case add_timer \<sigma> timer q of Inl e \<Rightarrow> Inl e | Inr q' \<Rightarrow> Inr (\<sigma>, q'))"
| "queue_step resched (RemoveTimer timer) (\<sigma>, q) = Inr (\<sigma>, remove_timer timer q)"
| "queue_step resched ExecuteReadyTimers (\<sigma>, q) =
     (case execute_ready_timers resched \<sigma> q of
        Inl e \<Rightarrow> Inl e
      | Inr (events, \<sigma>', q') \<Rightarrow> Inr (\<sigma>', q'))"
| "queue_step resched ClearAll (\<sigma>, q) = Inr (\<sigma>, clear_all q)"
| "queue_step resched (ClockAdvance d) (\<sigma>, q) = Inr (\<lambda>a. \<sigma> a - int d, q)"

definition queue_calls ::
  "(nat \<Rightarrow> int \<Rightarrow> int) \<Rightarrow> queue_call list \<Rightarrow> trigger_store \<times> timer_ptr list
     \<Rightarrow> fault + (trigger_store \<times> timer_ptr list)"
where
  "queue_calls resched calls s = for_each (queue_step resched) calls s"


section \<open>The clock (class Clock)\<close>

text \<open>
  \<^verbatim>\<open>Clock::ros_time_is_active\<close>. The two arguments are what the external rcl layer
  answers: the result of \<^verbatim>\<open>rcl_clock_valid\<close>, and the return code of
  \<^verbatim>\<open>rcl_is_enabled_ros_time_override\<close> together with the value it wrote to
  \<^verbatim>\<open>is_enabled\<close>. The result is the lines logged with \<^verbatim>\<open>RCUTILS_LOG_ERROR\<close> and the
  value returned or the exception thrown.
\<close>

definition ros_time_is_active :: "bool \<Rightarrow> rcl_ret_t \<times> bool \<Rightarrow> string list \<times> (exn + bool)" where
  "ros_time_is_active clock_valid override_query =
     (if \<not> clock_valid then ([''ROS time not valid!''], Inr False)
      else (case override_query of
              (ret, is_enabled) \<Rightarrow>
                if ret \<noteq> RCL_RET_OK
                then ([], Inl (RclError ret ''Failed to check ros_time_override_status''))
                else ([], Inr is_enabled)))"

text \<open>
  \<^verbatim>\<open>struct JumpHandler\<close>: two \<^verbatim>\<open>std::function\<close> members, empty (\<open>None\<close>) or holding a
  callable, and the threshold. The threshold is the rcl struct of the three values the
  spec lists.
\<close>

record rcl_jump_threshold_t =
  on_clock_change :: bool
  min_forward :: int
  min_backward :: int

record JumpHandler =
  pre_callback :: "nat option"
  post_callback :: "nat option"
  notice_threshold :: rcl_jump_threshold_t

text \<open>
  \<^verbatim>\<open>Clock::on_time_jump\<close>, the entry point rcl calls. The result lists the user callbacks
  it invoked: \<open>PreJump f\<close> is the call \<^verbatim>\<open>f()\<close>, \<open>PostJump f jump\<close> the call
  \<^verbatim>\<open>f(*time_jump)\<close>. The jump value is passed through as it is, so its type is a
  parameter.
\<close>

datatype 'j invocation = PreJump nat | PostJump nat 'j

definition on_time_jump :: "'j \<Rightarrow> bool \<Rightarrow> JumpHandler \<Rightarrow> 'j invocation list" where
  "on_time_jump time_jump before_jump handler =
     (if before_jump \<and> pre_callback handler \<noteq> None
      then (case pre_callback handler of None \<Rightarrow> [] | Some f \<Rightarrow> [PreJump f])
      else if \<not> before_jump \<and> post_callback handler \<noteq> None
      then (case post_callback handler of None \<Rightarrow> [] | Some f \<Rightarrow> [PostJump f time_jump])
      else [])"

text \<open>
  The state \<^verbatim>\<open>Clock::create_jump_callback\<close> and the deleter of the handle it returns work
  on: the \<^verbatim>\<open>JumpHandler\<close> objects on the heap, the handlers registered with the rcl
  clock (each with \<^verbatim>\<open>Clock::on_time_jump\<close> as its callback), the use count of each
  handle's control block, the calls made into rcl, and the error log.
\<close>

datatype rcl_call = AddJumpCallback nat | RemoveJumpCallback nat

record clock_state =
  handlers :: "nat \<Rightarrow> JumpHandler option"
  jump_callbacks :: "nat list"
  use_count :: "nat \<Rightarrow> nat"
  rcl_calls :: "rcl_call list"
  error_log :: "string list"

text \<open>
  The external rcl layer, as far as the clock uses it. The first argument is the return
  code the call answers with; a call registers or removes the handler only when it answers
  \<^verbatim>\<open>RCL_RET_OK\<close>.
\<close>

definition rcl_clock_add_jump_callback :: "rcl_ret_t \<Rightarrow> nat \<Rightarrow> clock_state \<Rightarrow> clock_state" where
  "rcl_clock_add_jump_callback ret h st =
     st\<lparr>rcl_calls := rcl_calls st @ [AddJumpCallback h],
        jump_callbacks := (if ret = RCL_RET_OK then jump_callbacks st @ [h] else jump_callbacks st)\<rparr>"

definition rcl_clock_remove_jump_callback :: "rcl_ret_t \<Rightarrow> nat \<Rightarrow> clock_state \<Rightarrow> clock_state" where
  "rcl_clock_remove_jump_callback ret h st =
     st\<lparr>rcl_calls := rcl_calls st @ [RemoveJumpCallback h],
        jump_callbacks := (if ret = RCL_RET_OK then remove1 h (jump_callbacks st) else jump_callbacks st)\<rparr>"

text \<open>
  What the \<^verbatim>\<open>new\<close> expression does: it throws, or it returns a pointer (the source also
  checks the pointer against \<^verbatim>\<open>nullptr\<close>).
\<close>

datatype new_result = NewThrows | NewReturns "nat option"

text \<open>
  \<^verbatim>\<open>Clock::create_jump_callback\<close>. \<open>alloc\<close> and \<open>add_ret\<close> are the outcomes of the
  \<^verbatim>\<open>new\<close> expression and of \<^verbatim>\<open>rcl_clock_add_jump_callback\<close>. On success the result is the
  handle: a shared pointer to the handler, with a fresh control block of use count 1.
\<close>

definition create_jump_callback ::
  "new_result \<Rightarrow> rcl_ret_t \<Rightarrow> nat option \<Rightarrow> nat option \<Rightarrow> rcl_jump_threshold_t \<Rightarrow> clock_state
     \<Rightarrow> clock_state \<times> (exn + nat)"
where
  "create_jump_callback alloc add_ret pre post threshold st =
     (case alloc of
        NewThrows \<Rightarrow> (st, Inl StdBadAlloc)
      | NewReturns None \<Rightarrow> (st, Inl (RclError RCL_RET_BAD_ALLOC ''Failed to allocate jump handler''))
      | NewReturns (Some h) \<Rightarrow>
          (let st1 = st\<lparr>handlers := (handlers st)(h \<mapsto>
                         \<lparr>pre_callback = pre, post_callback = post, notice_threshold = threshold\<rparr>)\<rparr>;
               st2 = rcl_clock_add_jump_callback add_ret h st1
           in if RCL_RET_OK \<noteq> add_ret
              then (st2\<lparr>handlers := (handlers st2)(h := None)\<rparr>,
                    Inl (RclError add_ret ''Failed to add time jump callback''))
              else (st2\<lparr>use_count := (use_count st2)(h := 1)\<rparr>, Inr h)))"

text \<open>
  The deleter of the returned shared pointer (a \<^verbatim>\<open>noexcept\<close> lambda): remove the callback
  from the clock, delete the handler, log when the removal failed. \<open>remove_ret\<close> is the
  outcome of \<^verbatim>\<open>rcl_clock_remove_jump_callback\<close>.
\<close>

definition jump_handler_deleter :: "rcl_ret_t \<Rightarrow> nat \<Rightarrow> clock_state \<Rightarrow> clock_state" where
  "jump_handler_deleter remove_ret h st =
     (let st1 = rcl_clock_remove_jump_callback remove_ret h st;
          st2 = st1\<lparr>handlers := (handlers st1)(h := None)\<rparr>
      in if RCL_RET_OK \<noteq> remove_ret
         then st2\<lparr>error_log := error_log st2 @ [''Failed to remove time jump callback'']\<rparr>
         else st2)"

text \<open>
  What holders of the handle can do with it (\<^verbatim>\<open>std::shared_ptr\<close>): copy it, or release a
  copy; releasing the last copy runs the deleter. \<open>ReleaseHandle ret\<close> carries the outcome
  rcl would give if this release came to call it.
\<close>

datatype handle_op = CopyHandle | ReleaseHandle rcl_ret_t

fun handle_step :: "nat \<Rightarrow> handle_op \<Rightarrow> clock_state \<Rightarrow> clock_state" where
  "handle_step h CopyHandle st =
     (if use_count st h = 0 then st
      else st\<lparr>use_count := (use_count st)(h := Suc (use_count st h))\<rparr>)"
| "handle_step h (ReleaseHandle ret) st =
     (if use_count st h = 0 then st
      else if use_count st h = 1
      then jump_handler_deleter ret h (st\<lparr>use_count := (use_count st)(h := 0)\<rparr>)
      else st\<lparr>use_count := (use_count st)(h := use_count st h - 1)\<rparr>)"

definition handle_steps :: "nat \<Rightarrow> handle_op list \<Rightarrow> clock_state \<Rightarrow> clock_state" where
  "handle_steps h ops st = fold (handle_step h) ops st"

text \<open>How often a trace of rcl calls asked to remove handler \<open>h\<close>.\<close>

definition removals :: "nat \<Rightarrow> rcl_call list \<Rightarrow> nat" where
  "removals h calls = length (filter (\<lambda>c. c = RemoveJumpCallback h) calls)"


section \<open>The entities collector (class EventsExecutorEntitiesCollector)\<close>

text \<open>
  Nodes, callback groups and entities are owned outside the collector. The collector
  reads them through weak pointers; \<open>node_graph\<close> is the snapshot those reads return.
  A weak pointer is the address it refers to; locking it succeeds while the object is
  alive.

  Modelled from the spec: the callback group class (\<^verbatim>\<open>find_timer_ptrs_if\<close> and its four
  siblings) is not among the sources. Per the spec a group gives enumerable lists of its
  timers, subscriptions, services, clients and waitables; each \<^verbatim>\<open>find_..._ptrs_if\<close> calls
  the given function on the entries of one list in order, and the functions the collector
  passes always answer false, so every entry is visited.
\<close>

type_synonym callback_slot = "nat option \<times> nat option"

datatype entity_kind = Subscription | Service | Client | Waitable

record callback_group =
  can_be_taken_from :: bool
  timer_ptrs :: "timer_ptr list"
  subscription_ptrs :: "nat option list"
  service_ptrs :: "nat option list"
  client_ptrs :: "nat option list"
  waitable_ptrs :: "nat option list"

record node_graph =
  node_lock :: "nat \<Rightarrow> bool"
  get_callback_groups :: "nat \<Rightarrow> nat list"
  group_lock :: "nat \<Rightarrow> callback_group option"
  trigger_times :: trigger_store

text \<open>
  Everything the collector writes: the nodes' atomic flags
  (\<^verbatim>\<open>get_associated_with_executor_atomic\<close>), its own members, the executor's timers queue,
  the callback slot of every subscription, service, client and waitable, and the callback
  slot of every node's notify guard condition. A slot is the pair (context, callback);
  \<open>(None, None)\<close> is the unset slot.
\<close>

record system =
  has_executor :: "nat \<Rightarrow> bool"
  weak_nodes :: "nat list"
  executor_context :: "nat option"
  executor_callback :: "nat option"
  timers_queue :: "timer_ptr list"
  entity_callback :: "entity_kind \<times> nat \<Rightarrow> callback_slot"
  guard_condition_callback :: "nat \<Rightarrow> callback_slot"

text \<open>
  Modelled from the spec: \<^verbatim>\<open>init\<close> stores three functions the executor passes
  (\<^verbatim>\<open>push_timer_\<close>, \<^verbatim>\<open>clear_timer_\<close>, \<^verbatim>\<open>clear_all_timers_\<close>); the executor that binds
  them is not among the sources. Per the spec they feed the timers queue: add a timer,
  remove a timer, drop all timers.
\<close>

definition push_timer :: "node_graph \<Rightarrow> timer_ptr \<Rightarrow> system \<Rightarrow> fault + system" where
  "push_timer g timer s =
     (case add_timer (trigger_times g) timer (timers_queue s) of
        Inl e \<Rightarrow> Inl e
      | Inr q \<Rightarrow> Inr (s\<lparr>timers_queue := q\<rparr>))"

definition clear_timer :: "timer_ptr \<Rightarrow> system \<Rightarrow> system" where
  "clear_timer timer s = s\<lparr>timers_queue := remove_timer timer (timers_queue s)\<rparr>"

definition clear_all_timers :: "system \<Rightarrow> system" where
  "clear_all_timers s = s\<lparr>timers_queue := clear_all (timers_queue s)\<rparr>"

definition init :: "nat option \<Rightarrow> nat option \<Rightarrow> system \<Rightarrow> system" where
  "init context callback s = s\<lparr>executor_context := context, executor_callback := callback\<rparr>"

text \<open>
  \<^verbatim>\<open>set_events_executor_callback\<close> of one entity, and one \<^verbatim>\<open>find_..._ptrs_if\<close> pass with
  the collector's lambda: a null entry is skipped, any other entry gets the slot.
\<close>

definition set_events_executor_callback :: "entity_kind \<Rightarrow> nat \<Rightarrow> callback_slot \<Rightarrow> system \<Rightarrow> system" where
  "set_events_executor_callback kind a slot s =
     s\<lparr>entity_callback := (entity_callback s)((kind, a) := slot)\<rparr>"

definition set_callbacks :: "entity_kind \<Rightarrow> callback_slot \<Rightarrow> nat option list \<Rightarrow> system \<Rightarrow> system" where
  "set_callbacks kind slot ptrs s =
     fold (\<lambda>p s. case p of None \<Rightarrow> s | Some a \<Rightarrow> set_events_executor_callback kind a slot s) ptrs s"

text \<open>The body of the loop over a node's callback groups in \<^verbatim>\<open>set_entities_callbacks\<close>.\<close>

definition wire_group :: "node_graph \<Rightarrow> nat \<Rightarrow> system \<Rightarrow> fault + system" where
  "wire_group g weak_group s =
     (case group_lock g weak_group of
        None \<Rightarrow> Inr s
      | Some grp \<Rightarrow>
          if \<not> can_be_taken_from grp then Inr s
          else (let slot = (executor_context s, executor_callback s) in
                case for_each (\<lambda>timer s. case timer of None \<Rightarrow> Inr s | Some a \<Rightarrow> push_timer g timer s)
                       (timer_ptrs grp) s of
                  Inl e \<Rightarrow> Inl e
                | Inr s1 \<Rightarrow>
                    Inr (set_callbacks Waitable slot (waitable_ptrs grp)
                          (set_callbacks Client slot (client_ptrs grp)
                            (set_callbacks Service slot (service_ptrs grp)
                              (set_callbacks Subscription slot (subscription_ptrs grp) s1))))))"

definition set_entities_callbacks :: "node_graph \<Rightarrow> system \<Rightarrow> fault + system" where
  "set_entities_callbacks g s =
     for_each (\<lambda>weak_node s.
                 if \<not> node_lock g weak_node then Inr s
                 else for_each (wire_group g) (get_callback_groups g weak_node) s)
       (weak_nodes s) s"

text \<open>\<^verbatim>\<open>execute\<close>, the resync: drop all timers, then set every entity's callback.\<close>

definition execute :: "node_graph \<Rightarrow> system \<Rightarrow> fault + system" where
  "execute g s = set_entities_callbacks g (clear_all_timers s)"

text \<open>
  \<^verbatim>\<open>add_node\<close>. The argument is the address of a node the caller holds a shared pointer
  to. The result is the state after the call and how the call ended.
\<close>

datatype outcome = Returned | Threw exn | Undefined fault

definition add_node :: "nat \<Rightarrow> system \<Rightarrow> system \<times> outcome" where
  "add_node node_ptr s =
     (let was_set = has_executor s node_ptr;
          s1 = s\<lparr>has_executor := (has_executor s)(node_ptr := True)\<rparr>
      in if was_set then (s1, Threw (RuntimeError ''Node has already been added to an executor.''))
         else (s1\<lparr>weak_nodes := weak_nodes s1 @ [node_ptr]\<rparr>, Returned))"

text \<open>The body of the loop over the node's callback groups in \<^verbatim>\<open>remove_node\<close>.\<close>

definition unwire_group :: "node_graph \<Rightarrow> nat \<Rightarrow> system \<Rightarrow> system" where
  "unwire_group g weak_group s =
     (case group_lock g weak_group of
        None \<Rightarrow> s
      | Some grp \<Rightarrow>
          if \<not> can_be_taken_from grp then s
          else set_callbacks Waitable (None, None) (waitable_ptrs grp)
                 (set_callbacks Client (None, None) (client_ptrs grp)
                   (set_callbacks Service (None, None) (service_ptrs grp)
                     (set_callbacks Subscription (None, None) (subscription_ptrs grp)
                       (fold (\<lambda>timer s. case timer of None \<Rightarrow> s | Some a \<Rightarrow> clear_timer timer s)
                          (timer_ptrs grp) s)))))"

text \<open>
  The search of \<^verbatim>\<open>remove_node\<close>: the weak nodes with the first entry that locks to the
  given node erased, or \<open>None\<close> when no entry matches.
\<close>

fun erase_matching :: "node_graph \<Rightarrow> nat \<Rightarrow> nat list \<Rightarrow> nat list option" where
  "erase_matching g node_ptr [] = None"
| "erase_matching g node_ptr (w # rest) =
     (if node_lock g w \<and> w = node_ptr then Some rest
      else map_option (Cons w) (erase_matching g node_ptr rest))"

text \<open>
  \<^verbatim>\<open>remove_node\<close>. \<open>ret\<close> is the outcome of
  \<^verbatim>\<open>rcl_guard_condition_set_events_executor_callback\<close>, should the call be made.
\<close>

definition remove_node :: "node_graph \<Rightarrow> rcl_ret_t \<Rightarrow> nat \<Rightarrow> system \<Rightarrow> system \<times> outcome" where
  "remove_node g ret node_ptr s =
     (case erase_matching g node_ptr (weak_nodes s) of
        None \<Rightarrow> (s, Returned)
      | Some remaining \<Rightarrow>
          if ret \<noteq> RCL_RET_OK
          then (s, Threw (RuntimeError ''Couldn't set guard condition callback''))
          else (let s1 = s\<lparr>guard_condition_callback :=
                             (guard_condition_callback s)(node_ptr := (None, None))\<rparr>;
                    s2 = fold (unwire_group g) (get_callback_groups g node_ptr) s1
                in (s2\<lparr>weak_nodes := remaining\<rparr>, Returned)))"

text \<open>The destructor: clear the flag of every weak node that still locks, then drop them all.\<close>

definition destructor :: "node_graph \<Rightarrow> system \<Rightarrow> system" where
  "destructor g s =
     (fold (\<lambda>weak_node s.
              if node_lock g weak_node
              then s\<lparr>has_executor := (has_executor s)(weak_node := False)\<rparr>
              else s)
        (weak_nodes s) s)\<lparr>weak_nodes := []\<rparr>"

text \<open>
  Calls on one collector, one after the other; a call that throws leaves the state it
  reached, and the caller goes on. \<open>Destroy\<close> is the destructor, after which the same
  record stands for a newly constructed collector.
\<close>

datatype collector_call = AddNode nat | RemoveNode nat rcl_ret_t | Execute | Destroy

fun collector_step :: "node_graph \<Rightarrow> collector_call \<Rightarrow> system \<Rightarrow> system \<times> outcome" where
  "collector_step g (AddNode n) s = add_node n s"
| "collector_step g (RemoveNode n ret) s = remove_node g ret n s"
| "collector_step g Execute s =
     (case execute g s of Inl e \<Rightarrow> (s, Undefined e) | Inr s' \<Rightarrow> (s', Returned))"
| "collector_step g Destroy s = (destructor g s, Returned)"

fun collector_calls :: "node_graph \<Rightarrow> collector_call list \<Rightarrow> system \<Rightarrow> system \<times> outcome list" where
  "collector_calls g [] s = (s, [])"
| "collector_calls g (c # cs) s =
     (case collector_step g c s of
        (s1, out) \<Rightarrow> (case collector_calls g cs s1 of (s2, outs) \<Rightarrow> (s2, out # outs)))"

text \<open>How many calls of \<^verbatim>\<open>add_node\<close> on node \<open>n\<close> returned without throwing.\<close>

fun successful_adds :: "nat \<Rightarrow> collector_call list \<Rightarrow> outcome list \<Rightarrow> nat" where
  "successful_adds n (c # cs) (out # outs) =
     (if c = AddNode n \<and> out = Returned then 1 else 0) + successful_adds n cs outs"
| "successful_adds n cs outs = 0"


section \<open>Auxiliary notions\<close>

text \<open>
  Two notions used to state what a resync pass amounts to: pushing a list of (non-null)
  timers onto a queue one after the other, and the combined effect of pushing the timers
  \<open>ts\<close> and giving every entity in the set \<open>K\<close> the executor's callback slot.
\<close>

definition push_all :: "trigger_store \<Rightarrow> nat list \<Rightarrow> timer_ptr list \<Rightarrow> fault + timer_ptr list" where
  "push_all \<sigma> ts q = for_each (\<lambda>a q. add_timer \<sigma> (Some a) q) ts q"

definition wiring_effect ::
  "node_graph \<Rightarrow> nat list \<Rightarrow> (entity_kind \<times> nat) set \<Rightarrow> system \<Rightarrow> fault + system"
where
  "wiring_effect g ts K s =
     (case push_all (trigger_times g) ts (timers_queue s) of
        Inl e \<Rightarrow> Inl e
      | Inr q \<Rightarrow>
          Inr (s\<lparr>timers_queue := q,
                 entity_callback :=
                   (\<lambda>k. if k \<in> K then (executor_context s, executor_callback s)
                        else entity_callback s k)\<rparr>))"

text \<open>The non-null entries of a list of pointers, in order.\<close>

definition non_null :: "nat option list \<Rightarrow> nat list" where
  "non_null ptrs = concat (map (\<lambda>p. case p of None \<Rightarrow> [] | Some a \<Rightarrow> [a]) ptrs)"

text \<open>
  The timers and the entities a resync pass reaches through one callback group, one node
  and a list of weak nodes: those of the groups that lock and can be taken from, of the
  nodes that lock.
\<close>

definition group_timers :: "node_graph \<Rightarrow> nat \<Rightarrow> nat list" where
  "group_timers g weak_group =
     (case group_lock g weak_group of
        None \<Rightarrow> []
      | Some grp \<Rightarrow> if can_be_taken_from grp then non_null (timer_ptrs grp) else [])"

definition group_entities :: "node_graph \<Rightarrow> nat \<Rightarrow> (entity_kind \<times> nat) set" where
  "group_entities g weak_group =
     (case group_lock g weak_group of
        None \<Rightarrow> {}
      | Some grp \<Rightarrow>
          if can_be_taken_from grp
          then {Subscription} \<times> set (non_null (subscription_ptrs grp)) \<union>
               {Service} \<times> set (non_null (service_ptrs grp)) \<union>
               {Client} \<times> set (non_null (client_ptrs grp)) \<union>
               {Waitable} \<times> set (non_null (waitable_ptrs grp))
          else {})"

definition node_timers :: "node_graph \<Rightarrow> nat \<Rightarrow> nat list" where
  "node_timers g weak_node =
     (if node_lock g weak_node
      then concat (map (group_timers g) (get_callback_groups g weak_node)) else [])"

definition node_entities :: "node_graph \<Rightarrow> nat \<Rightarrow> (entity_kind \<times> nat) set" where
  "node_entities g weak_node =
     (if node_lock g weak_node
      then (\<Union>weak_group \<in> set (get_callback_groups g weak_node). group_entities g weak_group)
      else {})"


section \<open>Properties of loops that may fail\<close>

lemma for_each_invariant:
  "for_each f xs s = Inr s' \<Longrightarrow> P s \<Longrightarrow>
   (\<And>x t t'. x \<in> set xs \<Longrightarrow> P t \<Longrightarrow> f x t = Inr t' \<Longrightarrow> P t') \<Longrightarrow> P s'"
proof (induction xs arbitrary: s)
  case Nil
  then show ?case by simp
next
  case (Cons x xs)
  from Cons.prems(1) obtain t where t: "f x s = Inr t" and rest: "for_each f xs t = Inr s'"
    by (auto split: sum.splits)
  from Cons.prems(3)[OF _ Cons.prems(2) t] have "P t" by simp
  show ?case
    by (rule Cons.IH[OF rest \<open>P t\<close>]) (use Cons.prems(3) in auto)
qed

lemma for_each_total:
  "P s \<Longrightarrow> (\<And>x t. x \<in> set xs \<Longrightarrow> P t \<Longrightarrow> \<exists>t'. f x t = Inr t' \<and> P t') \<Longrightarrow>
   \<exists>s'. for_each f xs s = Inr s' \<and> P s'"
proof (induction xs arbitrary: s)
  case Nil
  then show ?case by simp
next
  case (Cons x xs)
  from Cons.prems(2)[OF _ Cons.prems(1), of x] obtain t where t: "f x s = Inr t" "P t"
    by auto
  from Cons.IH[OF t(2)] Cons.prems(2) obtain s' where "for_each f xs t = Inr s'" "P s'"
    by (metis list.set_intros(2))
  with t(1) show ?case by simp
qed

lemma for_each_append:
  "for_each f (xs @ ys) s =
     (case for_each f xs s of Inl e \<Rightarrow> Inl e | Inr t \<Rightarrow> for_each f ys t)"
  by (induction xs arbitrary: s) (auto split: sum.splits)


section \<open>Properties of the timers queue\<close>

subsection \<open>Removal\<close>


lemma remove_timer_remove1: "remove_timer t q = remove1 t q"
  by (induction q) auto

lemma remove_timer_absent: "t \<notin> set q \<Longrightarrow> remove_timer t q = q"
  by (induction q) auto

lemma remove_timer_present:
  "t \<in> set q \<Longrightarrow> \<exists>ys zs. q = ys @ t # zs \<and> t \<notin> set ys \<and> remove_timer t q = ys @ zs"
proof (induction q)
  case Nil
  then show ?case by simp
next
  case (Cons x q)
  show ?case
  proof (cases "x = t")
    case True
    then have "x # q = [] @ t # q \<and> t \<notin> set [] \<and> remove_timer t (x # q) = [] @ q" by simp
    then show ?thesis by blast
  next
    case False
    with Cons.prems have "t \<in> set q" by simp
    from Cons.IH[OF this] obtain ys zs where
      h: "q = ys @ t # zs" "t \<notin> set ys" "remove_timer t q = ys @ zs" by blast
    with False have "x # q = (x # ys) @ t # zs \<and> t \<notin> set (x # ys) \<and> remove_timer t (x # q) = (x # ys) @ zs"
      by auto
    then show ?thesis by blast
  qed
qed

text \<open>
  Claim C9. \<^verbatim>\<open>remove_timer\<close> removes exactly the first entry whose pointer equals the
  given timer's: the entries before it (none of them a match) and all entries after it,
  later duplicates included, stay as they are and in order. When no entry matches, the
  queue is unchanged. The function has no failing branch: its result is a queue.
\<close>

theorem remove_timer_first_match:
  "(t \<notin> set q \<longrightarrow> remove_timer t q = q) \<and>
   (t \<in> set q \<longrightarrow> (\<exists>ys zs. q = ys @ t # zs \<and> t \<notin> set ys \<and> remove_timer t q = ys @ zs))"
  using remove_timer_absent remove_timer_present by blast

theorem remove_timer_first_match_witness:
  "Some (7::nat) \<in> set [Some 3, Some 7, None, Some 7] \<and>
   (\<exists>ys zs. [Some 3, Some 7, None, Some 7] = ys @ Some 7 # zs \<and> Some 7 \<notin> set ys \<and>
      remove_timer (Some 7) [Some 3, Some 7, None, Some 7] = ys @ zs) \<and>
   remove_timer (Some 7) [Some 3, Some 7, None, Some 7] = [Some 3, None, Some 7] \<and>
   Some (9::nat) \<notin> set [Some 3, Some 7, None, Some 7] \<and>
   remove_timer (Some 9) [Some 3, Some 7, None, Some 7] = [Some 3, Some 7, None, Some 7]"
  using remove_timer_first_match[of "Some 7" "[Some 3, Some 7, None, Some 7]"]
        remove_timer_first_match[of "Some 9" "[Some 3, Some 7, None, Some 7]"]
  by simp

text \<open>
  Claim C3. The claim has \<^verbatim>\<open>get_head_timeout\<close> total, answering the maximum duration
  on an empty queue. The source initialises \<^verbatim>\<open>min_timeout\<close> to that maximum and guards
  the head with a null check, but it reads \<^verbatim>\<open>timers_queue.front()\<close> first, which is
  undefined on an empty vector: on the empty queue the call reaches that undefined read
  and does not return the maximum.
\<close>

theorem get_head_timeout_empty_queue:
  "get_head_timeout \<sigma> [] = Inl FrontOfEmptyVector"
  by (simp add: get_head_timeout_def)

subsection \<open>The execution loop\<close>











subsection \<open>Sortedness\<close>

lemma reorder_queue_sorted:
  "reorder_queue \<sigma> q = Inr q' \<Longrightarrow>
     sorted (map (trigger_key \<sigma>) q') \<and> mset q' = mset q \<and> (None \<in> set q' \<longrightarrow> length q' \<le> 1)"
  by (auto simp: reorder_queue_def split: if_splits)

lemma reorder_queue_total:
  "None \<notin> set q \<Longrightarrow> \<exists>q'. reorder_queue \<sigma> q = Inr q' \<and> None \<notin> set q'"
  by (simp add: reorder_queue_def)

lemma ready_loop_total:
  "None \<notin> set q \<Longrightarrow> \<exists>ev \<sigma>'. ready_loop r q \<sigma> = Inr (ev, \<sigma>')"
proof (induction q arbitrary: \<sigma>)
  case Nil
  then show ?case by simp
next
  case (Cons p q)
  then obtain a where p: "p = Some a" by (cases p) auto
  from Cons.prems have "None \<notin> set q" by simp
  from Cons.IH[OF this, of "execute_callback r a \<sigma>"] p show ?case by auto
qed

lemma clock_advance_sorted:
  assumes "sorted (map (trigger_key \<sigma>) q)" and "None \<in> set q \<longrightarrow> length q \<le> 1"
  shows "sorted (map (trigger_key (\<lambda>a. \<sigma> a - d)) q)"
proof (cases "None \<in> set q")
  case True
  with assms(2) have "length q \<le> 1" by simp
  then show ?thesis by (cases q) auto
next
  case False
  have "sorted_wrt (\<lambda>x y. trigger_key \<sigma> x \<le> trigger_key \<sigma> y) q"
    using assms(1) by (simp add: sorted_map)
  then have "sorted_wrt (\<lambda>x y. trigger_key (\<lambda>a. \<sigma> a - d) x \<le> trigger_key (\<lambda>a. \<sigma> a - d) y) q"
  proof (rule sorted_wrt_mono_rel[rotated])
    fix x y assume "x \<in> set q" "y \<in> set q" "trigger_key \<sigma> x \<le> trigger_key \<sigma> y"
    with False show "trigger_key (\<lambda>a. \<sigma> a - d) x \<le> trigger_key (\<lambda>a. \<sigma> a - d) y"
      by (cases x; cases y) (auto simp: trigger_key_def)
  qed
  then show ?thesis by (simp add: sorted_map)
qed

lemma queue_step_sorted:
  assumes "queue_step r c (\<sigma>, q) = Inr (\<sigma>', q')"
    and "sorted (map (trigger_key \<sigma>) q)" and "None \<in> set q \<longrightarrow> length q \<le> 1"
  shows "sorted (map (trigger_key \<sigma>') q') \<and> (None \<in> set q' \<longrightarrow> length q' \<le> 1)"
proof (cases c)
  case (AddTimer t)
  with assms(1) have "reorder_queue \<sigma> (q @ [t]) = Inr q'" and "\<sigma>' = \<sigma>"
    by (auto simp: add_timer_def split: sum.splits)
  with reorder_queue_sorted[of \<sigma> "q @ [t]" q'] show ?thesis by simp
next
  case (RemoveTimer t)
  with assms(1) have q': "q' = remove1 t q" and s: "\<sigma>' = \<sigma>"
    by (auto simp: remove_timer_remove1)
  have "sorted (map (trigger_key \<sigma>) (remove1 t q))"
    using assms(2) by (rule sorted_map_remove1)
  moreover have "None \<in> set (remove1 t q) \<longrightarrow> length (remove1 t q) \<le> 1"
    using assms(3) set_remove1_subset[of t q] length_remove1[of t q]
    by (auto split: if_splits)
  ultimately show ?thesis using q' s by simp
next
  case ExecuteReadyTimers
  with assms(1) obtain ev where "execute_ready_timers r \<sigma> q = Inr (ev, \<sigma>', q')"
    by (auto split: sum.splits)
  then have "reorder_queue \<sigma>' q = Inr q'"
    by (auto simp: execute_ready_timers_def split: sum.splits)
  with reorder_queue_sorted[of \<sigma>' q q'] show ?thesis by simp
next
  case ClearAll
  with assms(1) show ?thesis by (auto simp: clear_all_def)
next
  case (ClockAdvance d)
  with assms(1) have "q' = q" "\<sigma>' = (\<lambda>a. \<sigma> a - int d)" by auto
  with clock_advance_sorted[OF assms(2,3), of "int d"] assms(3) show ?thesis by simp
qed

lemma queue_calls_sorted:
  assumes "queue_calls r cs (\<sigma>0, []) = Inr (\<sigma>, q)"
  shows "sorted (map (trigger_key \<sigma>) q) \<and> (None \<in> set q \<longrightarrow> length q \<le> 1)"
proof -
  let ?P = "\<lambda>s. sorted (map (trigger_key (fst s)) (snd s)) \<and> (None \<in> set (snd s) \<longrightarrow> length (snd s) \<le> 1)"
  have "?P (\<sigma>, q)"
  proof (rule for_each_invariant[where P = ?P and f = "queue_step r" and xs = cs and s = "(\<sigma>0, [])"])
    show "for_each (queue_step r) cs (\<sigma>0, []) = Inr (\<sigma>, q)"
      using assms by (simp add: queue_calls_def)
    show "?P (\<sigma>0, [])" by simp
  next
    fix x t t'
    assume "?P t" and "queue_step r x t = Inr t'"
    then show "?P t'"
      using queue_step_sorted[of r x "fst t" "snd t" "fst t'" "snd t'"] by simp
  qed
  then show ?thesis by simp
qed

text \<open>
  On a non-empty queue \<^verbatim>\<open>get_head_timeout\<close> does return: the maximum when the head is
  null, and otherwise the head's time until trigger, which in every state reached from the
  queue's construction is the least of all queued timers (and may be negative).
\<close>

lemma get_head_timeout_null_head:
  "get_head_timeout \<sigma> (None # rest) = Inr nanoseconds_max"
  by (simp add: get_head_timeout_def)

lemma get_head_timeout_earliest:
  assumes "queue_calls r cs (\<sigma>0, []) = Inr (\<sigma>, Some a # rest)"
  shows "get_head_timeout \<sigma> (Some a # rest) = Inr (\<sigma> a) \<and>
         (\<forall>b. Some b \<in> set rest \<longrightarrow> \<sigma> a \<le> \<sigma> b)"
proof -
  from queue_calls_sorted[OF assms]
  have "\<forall>p \<in> set rest. trigger_key \<sigma> (Some a) \<le> trigger_key \<sigma> p" by simp
  then have "\<forall>b. Some b \<in> set rest \<longrightarrow> \<sigma> a \<le> \<sigma> b"
    by (auto simp: trigger_key_def)
  then show ?thesis by (simp add: get_head_timeout_def)
qed

lemma queue_step_total:
  assumes "c \<noteq> AddTimer None" and "None \<notin> set q"
  shows "\<exists>\<sigma>' q'. queue_step r c (\<sigma>, q) = Inr (\<sigma>', q') \<and> None \<notin> set q'"
proof (cases c)
  case (AddTimer t)
  with assms have "None \<notin> set (q @ [t])" by auto
  from reorder_queue_total[OF this, of \<sigma>] AddTimer show ?thesis
    by (auto simp: add_timer_def)
next
  case (RemoveTimer t)
  with assms(2) set_remove1_subset[of t q] show ?thesis
    by (auto simp: remove_timer_remove1)
next
  case ExecuteReadyTimers
  from ready_loop_total[OF assms(2), of r \<sigma>] obtain ev \<sigma>' where
    l: "ready_loop r q \<sigma> = Inr (ev, \<sigma>')" by blast
  from reorder_queue_total[OF assms(2), of \<sigma>'] obtain q' where
    "reorder_queue \<sigma>' q = Inr q'" "None \<notin> set q'" by blast
  with l ExecuteReadyTimers show ?thesis by (simp add: execute_ready_timers_def)
next
  case ClearAll
  then show ?thesis by (simp add: clear_all_def)
next
  case (ClockAdvance d)
  with assms(2) show ?thesis by simp
qed

lemma queue_calls_total:
  assumes "AddTimer None \<notin> set cs"
  shows "\<exists>\<sigma> q. queue_calls r cs (\<sigma>0, []) = Inr (\<sigma>, q)"
proof -
  have "\<exists>s'. for_each (queue_step r) cs (\<sigma>0, []) = Inr s' \<and> None \<notin> set (snd s')"
  proof (rule for_each_total[where P = "\<lambda>s::trigger_store \<times> timer_ptr list. None \<notin> set (snd s)"])
    show "None \<notin> set (snd (\<sigma>0, []::timer_ptr list))" by simp
  next
    fix x and t :: "trigger_store \<times> timer_ptr list"
    assume "x \<in> set cs" and "None \<notin> set (snd t)"
    with assms have "x \<noteq> AddTimer None" by auto
    with \<open>None \<notin> set (snd t)\<close> queue_step_total[of x "snd t" r "fst t"]
    show "\<exists>t'. queue_step r x t = Inr t' \<and> None \<notin> set (snd t')" by auto
  qed
  then show ?thesis by (auto simp: queue_calls_def)
qed





text \<open>
  Claim C4. \<^verbatim>\<open>add_timer\<close> appends the timer and sorts the whole queue: whenever it
  returns, the result holds the old entries and the new one, ascending by time until
  trigger. Hence after every call in any sequence of calls from the queue's construction
  the queue is sorted ascending by time until trigger, in particular right before every
  call of \<^verbatim>\<open>execute_ready_timers\<close>; and a sequence that adds no null timer never fails.
\<close>

theorem timers_queue_sorted_invariant:
  "(add_timer \<sigma> timer q = Inr q' \<longrightarrow>
      sorted (map (trigger_key \<sigma>) q') \<and> mset q' = mset q + {#timer#}) \<and>
   (queue_calls resched calls (\<sigma>0, []) = Inr (\<sigma>1, q1) \<longrightarrow> sorted (map (trigger_key \<sigma>1) q1)) \<and>
   (queue_calls resched (calls @ ExecuteReadyTimers # later) (\<sigma>0, []) = Inr s \<longrightarrow>
      (\<exists>\<sigma>2 q2. queue_calls resched calls (\<sigma>0, []) = Inr (\<sigma>2, q2) \<and>
                sorted (map (trigger_key \<sigma>2) q2))) \<and>
   (AddTimer None \<notin> set calls \<longrightarrow> (\<exists>\<sigma>3 q3. queue_calls resched calls (\<sigma>0, []) = Inr (\<sigma>3, q3)))"
proof (intro conjI impI)
  assume "add_timer \<sigma> timer q = Inr q'"
  then have "reorder_queue \<sigma> (q @ [timer]) = Inr q'" by (simp add: add_timer_def)
  from reorder_queue_sorted[OF this]
  show "sorted (map (trigger_key \<sigma>) q')" and "mset q' = mset q + {#timer#}" by simp_all
next
  assume "queue_calls resched calls (\<sigma>0, []) = Inr (\<sigma>1, q1)"
  from queue_calls_sorted[OF this] show "sorted (map (trigger_key \<sigma>1) q1)" by simp
next
  assume "queue_calls resched (calls @ ExecuteReadyTimers # later) (\<sigma>0, []) = Inr s"
  then obtain t where t: "queue_calls resched calls (\<sigma>0, []) = Inr t"
    by (auto simp: queue_calls_def for_each_append split: sum.splits)
  then have "queue_calls resched calls (\<sigma>0, []) = Inr (fst t, snd t)" by simp
  from this queue_calls_sorted[OF this]
  show "\<exists>\<sigma>2 q2. queue_calls resched calls (\<sigma>0, []) = Inr (\<sigma>2, q2) \<and>
                sorted (map (trigger_key \<sigma>2) q2)" by blast
next
  assume "AddTimer None \<notin> set calls"
  then show "\<exists>\<sigma>3 q3. queue_calls resched calls (\<sigma>0, []) = Inr (\<sigma>3, q3)"
    by (rule queue_calls_total)
qed

theorem timers_queue_sorted_invariant_witness:
  "add_timer ((\<lambda>_. 0)(1 := 50, 2 := 10)) (Some 2) [Some 1] = Inr [Some 2, Some 1] \<and>
   sorted (map (trigger_key ((\<lambda>_. 0)(1 := 50, 2 := 10))) [Some 2, Some 1]) \<and>
   mset [Some 2, Some (1::nat)] = mset [Some 1] + {#Some 2#} \<and>
   AddTimer None \<notin> set [AddTimer (Some 1), AddTimer (Some 2), RemoveTimer (Some 1), AddTimer (Some 3),
                          ClockAdvance 15, ExecuteReadyTimers, AddTimer (Some 1)] \<and>
   (\<exists>\<sigma> q. queue_calls (\<lambda>a t. t + 100)
            [AddTimer (Some 1), AddTimer (Some 2), RemoveTimer (Some 1), AddTimer (Some 3),
             ClockAdvance 15, ExecuteReadyTimers, AddTimer (Some 1)]
            ((\<lambda>_. 0)(1 := 50, 2 := 10, 3 := 200), []) = Inr (\<sigma>, q) \<and>
          sorted (map (trigger_key \<sigma>) q)) \<and>
   (\<exists>\<sigma> q. queue_calls (\<lambda>a t. t + 100)
            [AddTimer (Some 1), AddTimer (Some 2), RemoveTimer (Some 1), AddTimer (Some 3), ClockAdvance 15]
            ((\<lambda>_. 0)(1 := 50, 2 := 10, 3 := 200), []) = Inr (\<sigma>, q) \<and>
          sorted (map (trigger_key \<sigma>) q))"
proof -
  let ?r = "\<lambda>(a::nat) (t::int). t + 100"
  let ?init = "(\<lambda>_. 0::int)(1 := 50, 2 := 10, 3 := 200) :: trigger_store"
  let ?two = "(\<lambda>_. 0::int)(1 := 50, 2 := 10) :: trigger_store"
  let ?pre = "[AddTimer (Some 1), AddTimer (Some 2), RemoveTimer (Some 1), AddTimer (Some 3), ClockAdvance 15]"
  let ?cs = "?pre @ ExecuteReadyTimers # [AddTimer (Some 1)]"
  have add: "add_timer ?two (Some 2) [Some 1] = Inr [Some 2, Some 1]"
    by (simp add: add_timer_def reorder_queue_def trigger_key_def)
  have nonnull: "AddTimer None \<notin> set ?cs" by simp
  note inv = timers_queue_sorted_invariant[of ?two "Some 2" "[Some 1]" "[Some 2, Some 1]" ?r ?cs ?init]
  from inv add have a: "sorted (map (trigger_key ?two) [Some 2, Some 1]) \<and>
      mset [Some 2, Some (1::nat)] = mset [Some 1] + {#Some 2#}" by blast
  from inv nonnull obtain \<sigma>3 q3 where run: "queue_calls ?r ?cs (?init, []) = Inr (\<sigma>3, q3)" by blast
  from timers_queue_sorted_invariant[of ?two "Some 2" "[Some 1]" "[Some 2, Some 1]" ?r ?cs ?init \<sigma>3 q3] run
  have b: "sorted (map (trigger_key \<sigma>3) q3)" by blast
  from timers_queue_sorted_invariant[of ?two "Some 2" "[Some 1]" "[Some 2, Some 1]" ?r ?pre ?init _ _
      "[AddTimer (Some 1)]" "(\<sigma>3, q3)"] run
  have c: "\<exists>\<sigma>2 q2. queue_calls ?r ?pre (?init, []) = Inr (\<sigma>2, q2) \<and> sorted (map (trigger_key \<sigma>2) q2)"
    by blast
  from add a nonnull run b c show ?thesis by simp
qed


section \<open>Properties of the clock\<close>

subsection \<open>Jump dispatch\<close>

text \<open>
  Claim C10. Each call of \<^verbatim>\<open>on_time_jump\<close> invokes at most one user callback. It
  invokes the pre-jump callback exactly when \<^verbatim>\<open>before_jump\<close> is set and the handler's
  \<^verbatim>\<open>pre_callback\<close> is not empty; it invokes the post-jump callback, on the jump value it
  was given, exactly when \<^verbatim>\<open>before_jump\<close> is not set and \<^verbatim>\<open>post_callback\<close> is not
  empty; and it invokes nothing exactly when the callback the flag selects is empty.
\<close>

theorem on_time_jump_at_most_one_callback:
  "length (on_time_jump jump before handler) \<le> 1 \<and>
   (\<forall>f. PreJump f \<in> set (on_time_jump jump before handler) \<longleftrightarrow>
        (before \<and> pre_callback handler = Some f)) \<and>
   (\<forall>f j. PostJump f j \<in> set (on_time_jump jump before handler) \<longleftrightarrow>
        (\<not> before \<and> post_callback handler = Some f \<and> j = jump)) \<and>
   (on_time_jump jump before handler = [] \<longleftrightarrow>
        (if before then pre_callback handler = None else post_callback handler = None))"
  by (cases "pre_callback handler"; cases "post_callback handler"; cases before)
     (auto simp: on_time_jump_def)

theorem on_time_jump_at_most_one_callback_witness:
  "on_time_jump (42::int) True
     \<lparr>pre_callback = Some 1, post_callback = Some 2,
      notice_threshold = \<lparr>on_clock_change = True, min_forward = 0, min_backward = 0\<rparr>\<rparr> = [PreJump 1] \<and>
   on_time_jump (42::int) False
     \<lparr>pre_callback = Some 1, post_callback = Some 2,
      notice_threshold = \<lparr>on_clock_change = True, min_forward = 0, min_backward = 0\<rparr>\<rparr> = [PostJump 2 42] \<and>
   on_time_jump (42::int) True
     \<lparr>pre_callback = None, post_callback = Some 2,
      notice_threshold = \<lparr>on_clock_change = True, min_forward = 0, min_backward = 0\<rparr>\<rparr> = []"
proof -
  let ?th = "\<lparr>on_clock_change = True, min_forward = 0, min_backward = 0\<rparr>"
  let ?both = "\<lparr>pre_callback = Some 1, post_callback = Some 2, notice_threshold = ?th\<rparr>"
  let ?post = "\<lparr>pre_callback = None, post_callback = Some 2, notice_threshold = ?th\<rparr>"
  have one: "length xs \<le> 1 \<Longrightarrow> x \<in> set xs \<Longrightarrow> xs = [x]" for x :: "int invocation" and xs
    by (cases xs) auto
  from on_time_jump_at_most_one_callback[of "42::int" True ?both]
  have "length (on_time_jump (42::int) True ?both) \<le> 1"
    and "PreJump 1 \<in> set (on_time_jump (42::int) True ?both)" by simp_all
  then have a: "on_time_jump (42::int) True ?both = [PreJump 1]" by (rule one)
  from on_time_jump_at_most_one_callback[of "42::int" False ?both]
  have "length (on_time_jump (42::int) False ?both) \<le> 1"
    and "PostJump 2 42 \<in> set (on_time_jump (42::int) False ?both)" by simp_all
  then have b: "on_time_jump (42::int) False ?both = [PostJump 2 42]" by (rule one)
  from on_time_jump_at_most_one_callback[of "42::int" True ?post]
  have c: "on_time_jump (42::int) True ?post = []" by simp
  from a b c show ?thesis by simp
qed

subsection \<open>The override query\<close>

text \<open>
  Claim C6, as stated, fails. With a valid clock and a failing
  \<^verbatim>\<open>rcl_is_enabled_ros_time_override\<close>, \<^verbatim>\<open>ros_time_is_active\<close> does not return false
  and logs nothing: it throws the rcl error.
\<close>

theorem ros_time_is_active_query_failure_throws:
  "ros_time_is_active True (RCL_RET_OTHER 1, False) =
     ([], Inl (RclError (RCL_RET_OTHER 1) ''Failed to check ros_time_override_status'')) \<and>
   snd (ros_time_is_active True (RCL_RET_OTHER 1, False)) \<noteq> Inr False \<and>
   fst (ros_time_is_active True (RCL_RET_OTHER 1, False)) = []"
  by (simp add: ros_time_is_active_def)

text \<open>
  Claim C6, amended. \<^verbatim>\<open>ros_time_is_active\<close> returns true exactly when the clock is
  valid, the override query succeeds and the override is enabled. On an invalid clock it
  logs one error line and returns false, without throwing. When the clock is valid and
  the override query succeeds it returns the queried flag and logs nothing. When the clock
  is valid and the override query fails it logs nothing and throws the rcl error made
  from the query's return code.
\<close>

theorem ros_time_is_active_outcomes:
  "(snd (ros_time_is_active clock_valid (ret, is_enabled)) = Inr True \<longleftrightarrow>
      (clock_valid \<and> ret = RCL_RET_OK \<and> is_enabled)) \<and>
   (\<not> clock_valid \<longrightarrow>
      ros_time_is_active clock_valid (ret, is_enabled) = ([''ROS time not valid!''], Inr False)) \<and>
   (clock_valid \<and> ret = RCL_RET_OK \<longrightarrow>
      ros_time_is_active clock_valid (ret, is_enabled) = ([], Inr is_enabled)) \<and>
   (clock_valid \<and> ret \<noteq> RCL_RET_OK \<longrightarrow>
      ros_time_is_active clock_valid (ret, is_enabled) =
        ([], Inl (RclError ret ''Failed to check ros_time_override_status'')))"
  by (auto simp: ros_time_is_active_def)

theorem ros_time_is_active_outcomes_witness:
  "ros_time_is_active False (RCL_RET_OK, True) = ([''ROS time not valid!''], Inr False) \<and>
   ros_time_is_active True (RCL_RET_OK, True) = ([], Inr True) \<and>
   ros_time_is_active True (RCL_RET_OK, False) = ([], Inr False) \<and>
   ros_time_is_active True (RCL_RET_BAD_ALLOC, True) =
     ([], Inl (RclError RCL_RET_BAD_ALLOC ''Failed to check ros_time_override_status''))"
  using ros_time_is_active_outcomes[of False RCL_RET_OK True]
        ros_time_is_active_outcomes[of True RCL_RET_OK True]
        ros_time_is_active_outcomes[of True RCL_RET_OK False]
        ros_time_is_active_outcomes[of True RCL_RET_BAD_ALLOC True]
  by simp

subsection \<open>Jump handler registration and release\<close>

lemma removals_append: "removals h (xs @ ys) = removals h xs + removals h ys"
  by (simp add: removals_def)

lemma handle_step_keeps:
  assumes "removals h (rcl_calls s) = c + (if use_count s h = 0 then 1 else 0)"
    and "use_count s h = 0 \<longrightarrow> handlers s h = None"
    and "0 < use_count s h \<longrightarrow> handlers s h = H \<and> error_log s = L \<and> jump_callbacks s = J"
  shows "removals h (rcl_calls (handle_step h operation s)) =
           c + (if use_count (handle_step h operation s) h = 0 then 1 else 0) \<and>
         (use_count (handle_step h operation s) h = 0 \<longrightarrow> handlers (handle_step h operation s) h = None) \<and>
         (0 < use_count (handle_step h operation s) h \<longrightarrow>
            handlers (handle_step h operation s) h = H \<and>
            error_log (handle_step h operation s) = L \<and>
            jump_callbacks (handle_step h operation s) = J)"
proof (cases operation)
  case CopyHandle
  with assms show ?thesis by auto
next
  case (ReleaseHandle ret)
  consider "use_count s h = 0" | "use_count s h = 1" | "1 < use_count s h" by linarith
  then show ?thesis
  proof cases
    case 1
    with assms ReleaseHandle show ?thesis by simp
  next
    case 2
    with assms ReleaseHandle show ?thesis
      by (simp add: jump_handler_deleter_def rcl_clock_remove_jump_callback_def Let_def
          removals_append)
        (simp add: removals_def)
  next
    case 3
    with assms ReleaseHandle show ?thesis by simp
  qed
qed

lemma handle_steps_keep:
  assumes "removals h (rcl_calls s) = c + (if use_count s h = 0 then 1 else 0)"
    and "use_count s h = 0 \<longrightarrow> handlers s h = None"
    and "0 < use_count s h \<longrightarrow> handlers s h = H \<and> error_log s = L \<and> jump_callbacks s = J"
  shows "removals h (rcl_calls (handle_steps h ops s)) =
           c + (if use_count (handle_steps h ops s) h = 0 then 1 else 0) \<and>
         (use_count (handle_steps h ops s) h = 0 \<longrightarrow> handlers (handle_steps h ops s) h = None) \<and>
         (0 < use_count (handle_steps h ops s) h \<longrightarrow>
            handlers (handle_steps h ops s) h = H \<and>
            error_log (handle_steps h ops s) = L \<and>
            jump_callbacks (handle_steps h ops s) = J)"
  using assms
proof (induction ops arbitrary: s)
  case Nil
  then show ?case by (simp add: handle_steps_def)
next
  case (Cons operation ops)
  from handle_step_keeps[OF Cons.prems, of operation]
  have "removals h (rcl_calls (handle_steps h ops (handle_step h operation s))) =
           c + (if use_count (handle_steps h ops (handle_step h operation s)) h = 0 then 1 else 0) \<and>
         (use_count (handle_steps h ops (handle_step h operation s)) h = 0 \<longrightarrow>
            handlers (handle_steps h ops (handle_step h operation s)) h = None) \<and>
         (0 < use_count (handle_steps h ops (handle_step h operation s)) h \<longrightarrow>
            handlers (handle_steps h ops (handle_step h operation s)) h = H \<and>
            error_log (handle_steps h ops (handle_step h operation s)) = L \<and>
            jump_callbacks (handle_steps h ops (handle_step h operation s)) = J)"
    by (intro Cons.IH) simp_all
  then show ?case by (simp add: handle_steps_def)
qed

lemma create_alloc_failure:
  "create_jump_callback NewThrows add_ret pre post th st = (st, Inl StdBadAlloc)"
  "create_jump_callback (NewReturns None) add_ret pre post th st =
     (st, Inl (RclError RCL_RET_BAD_ALLOC ''Failed to allocate jump handler''))"
  by (simp_all add: create_jump_callback_def)

lemma create_registration_failure:
  assumes "handlers st h = None" and "add_ret \<noteq> RCL_RET_OK"
  shows "create_jump_callback (NewReturns (Some h)) add_ret pre post th st =
     (st\<lparr>rcl_calls := rcl_calls st @ [AddJumpCallback h]\<rparr>,
      Inl (RclError add_ret ''Failed to add time jump callback''))"
proof -
  from assms(1) have "(handlers st)(h := None) = handlers st" by (simp add: fun_upd_idem)
  with assms(2) show ?thesis
    by (simp add: create_jump_callback_def rcl_clock_add_jump_callback_def Let_def)
qed

lemma create_success:
  "create_jump_callback (NewReturns (Some h)) RCL_RET_OK pre post th st =
     (st\<lparr>handlers := (handlers st)(h \<mapsto>
            \<lparr>pre_callback = pre, post_callback = post, notice_threshold = th\<rparr>),
         rcl_calls := rcl_calls st @ [AddJumpCallback h],
         jump_callbacks := jump_callbacks st @ [h],
         use_count := (use_count st)(h := 1)\<rparr>, Inr h)"
  by (simp add: create_jump_callback_def rcl_clock_add_jump_callback_def Let_def)

lemma release_last:
  assumes "use_count s h = 1"
  shows "handle_step h (ReleaseHandle ret) s =
     s\<lparr>use_count := (use_count s)(h := 0),
       rcl_calls := rcl_calls s @ [RemoveJumpCallback h],
       jump_callbacks := (if ret = RCL_RET_OK then remove1 h (jump_callbacks s) else jump_callbacks s),
       handlers := (handlers s)(h := None),
       error_log := (if ret = RCL_RET_OK then error_log s
                     else error_log s @ [''Failed to remove time jump callback''])\<rparr>"
  using assms
  by (simp add: jump_handler_deleter_def rcl_clock_remove_jump_callback_def Let_def)

text \<open>
  Claim C7. \<^verbatim>\<open>create_jump_callback\<close> fails with an allocation error, the state
  untouched, when the handler cannot be allocated. When the handler is allocated at a
  fresh address and registering it with rcl fails, the call throws the rcl error of the
  registration and leaves the heap, the clock's registered callbacks, the use counts and
  the log exactly as they were before the call: the handler is deleted again (only the
  record of the attempted rcl call remains). When registration succeeds, the call returns
  a handle of use count 1 on the registered handler. Releasing that handle makes exactly
  one removal call to rcl, deletes the handler, removes the registration when rcl
  succeeds, and appends one line to the log, throwing nothing, when rcl fails. Under any
  sequence of copies and releases of the handle, the number of removal calls for the
  handler grows by exactly one when the last copy is gone and by none before; while a copy
  is held, the handler, its registration and the log are untouched.
\<close>

theorem create_jump_callback_rollback_and_release:
  "create_jump_callback NewThrows add_ret pre post th st = (st, Inl StdBadAlloc) \<and>
   create_jump_callback (NewReturns None) add_ret pre post th st =
     (st, Inl (RclError RCL_RET_BAD_ALLOC ''Failed to allocate jump handler'')) \<and>
   (handlers st h = None \<and> add_ret \<noteq> RCL_RET_OK \<longrightarrow>
      create_jump_callback (NewReturns (Some h)) add_ret pre post th st =
        (st\<lparr>rcl_calls := rcl_calls st @ [AddJumpCallback h]\<rparr>,
         Inl (RclError add_ret ''Failed to add time jump callback''))) \<and>
   (\<exists>st'. create_jump_callback (NewReturns (Some h)) RCL_RET_OK pre post th st = (st', Inr h) \<and>
      handlers st' h = Some \<lparr>pre_callback = pre, post_callback = post, notice_threshold = th\<rparr> \<and>
      jump_callbacks st' = jump_callbacks st @ [h] \<and>
      use_count st' h = 1 \<and>
      error_log st' = error_log st \<and>
      (\<forall>ret. rcl_calls (handle_step h (ReleaseHandle ret) st') =
                rcl_calls st' @ [RemoveJumpCallback h] \<and>
             handlers (handle_step h (ReleaseHandle ret) st') h = None \<and>
             use_count (handle_step h (ReleaseHandle ret) st') h = 0 \<and>
             jump_callbacks (handle_step h (ReleaseHandle ret) st') =
               (if ret = RCL_RET_OK then remove1 h (jump_callbacks st') else jump_callbacks st') \<and>
             error_log (handle_step h (ReleaseHandle ret) st') =
               (if ret = RCL_RET_OK then error_log st
                else error_log st @ [''Failed to remove time jump callback''])) \<and>
      (\<forall>ops. removals h (rcl_calls (handle_steps h ops st')) =
                removals h (rcl_calls st) + (if use_count (handle_steps h ops st') h = 0 then 1 else 0) \<and>
             (use_count (handle_steps h ops st') h = 0 \<longrightarrow>
                handlers (handle_steps h ops st') h = None) \<and>
             (0 < use_count (handle_steps h ops st') h \<longrightarrow>
                handlers (handle_steps h ops st') h = handlers st' h \<and>
                jump_callbacks (handle_steps h ops st') = jump_callbacks st' \<and>
                error_log (handle_steps h ops st') = error_log st)))"
proof (intro conjI impI)
  show "create_jump_callback NewThrows add_ret pre post th st = (st, Inl StdBadAlloc)"
    by (rule create_alloc_failure)
  show "create_jump_callback (NewReturns None) add_ret pre post th st =
     (st, Inl (RclError RCL_RET_BAD_ALLOC ''Failed to allocate jump handler''))"
    by (rule create_alloc_failure)
next
  assume "handlers st h = None \<and> add_ret \<noteq> RCL_RET_OK"
  then show "create_jump_callback (NewReturns (Some h)) add_ret pre post th st =
        (st\<lparr>rcl_calls := rcl_calls st @ [AddJumpCallback h]\<rparr>,
         Inl (RclError add_ret ''Failed to add time jump callback''))"
    using create_registration_failure by blast
next
  define st' where "st' = st\<lparr>handlers := (handlers st)(h \<mapsto>
            \<lparr>pre_callback = pre, post_callback = post, notice_threshold = th\<rparr>),
         rcl_calls := rcl_calls st @ [AddJumpCallback h],
         jump_callbacks := jump_callbacks st @ [h],
         use_count := (use_count st)(h := 1)\<rparr>"
  have made: "create_jump_callback (NewReturns (Some h)) RCL_RET_OK pre post th st = (st', Inr h)"
    unfolding st'_def by (rule create_success)
  have uc: "use_count st' h = 1" by (simp add: st'_def)
  have log: "error_log st' = error_log st" by (simp add: st'_def)
  have rem: "removals h (rcl_calls st') = removals h (rcl_calls st)"
    by (simp add: st'_def removals_def)
  have one: "\<forall>ret. rcl_calls (handle_step h (ReleaseHandle ret) st') =
                rcl_calls st' @ [RemoveJumpCallback h] \<and>
             handlers (handle_step h (ReleaseHandle ret) st') h = None \<and>
             use_count (handle_step h (ReleaseHandle ret) st') h = 0 \<and>
             jump_callbacks (handle_step h (ReleaseHandle ret) st') =
               (if ret = RCL_RET_OK then remove1 h (jump_callbacks st') else jump_callbacks st') \<and>
             error_log (handle_step h (ReleaseHandle ret) st') =
               (if ret = RCL_RET_OK then error_log st
                else error_log st @ [''Failed to remove time jump callback''])"
    unfolding release_last[OF uc] by (simp add: log)
  have many: "\<forall>ops. removals h (rcl_calls (handle_steps h ops st')) =
                removals h (rcl_calls st) + (if use_count (handle_steps h ops st') h = 0 then 1 else 0) \<and>
             (use_count (handle_steps h ops st') h = 0 \<longrightarrow>
                handlers (handle_steps h ops st') h = None) \<and>
             (0 < use_count (handle_steps h ops st') h \<longrightarrow>
                handlers (handle_steps h ops st') h = handlers st' h \<and>
                jump_callbacks (handle_steps h ops st') = jump_callbacks st' \<and>
                error_log (handle_steps h ops st') = error_log st)"
  proof
    fix ops
    have "removals h (rcl_calls (handle_steps h ops st')) =
           removals h (rcl_calls st) + (if use_count (handle_steps h ops st') h = 0 then 1 else 0) \<and>
         (use_count (handle_steps h ops st') h = 0 \<longrightarrow> handlers (handle_steps h ops st') h = None) \<and>
         (0 < use_count (handle_steps h ops st') h \<longrightarrow>
            handlers (handle_steps h ops st') h = handlers st' h \<and>
            error_log (handle_steps h ops st') = error_log st \<and>
            jump_callbacks (handle_steps h ops st') = jump_callbacks st')"
      by (rule handle_steps_keep) (simp_all add: uc rem log)
    then show "removals h (rcl_calls (handle_steps h ops st')) =
                removals h (rcl_calls st) + (if use_count (handle_steps h ops st') h = 0 then 1 else 0) \<and>
             (use_count (handle_steps h ops st') h = 0 \<longrightarrow>
                handlers (handle_steps h ops st') h = None) \<and>
             (0 < use_count (handle_steps h ops st') h \<longrightarrow>
                handlers (handle_steps h ops st') h = handlers st' h \<and>
                jump_callbacks (handle_steps h ops st') = jump_callbacks st' \<and>
                error_log (handle_steps h ops st') = error_log st)"
      by blast
  qed
  have "handlers st' h = Some \<lparr>pre_callback = pre, post_callback = post, notice_threshold = th\<rparr>"
    and "jump_callbacks st' = jump_callbacks st @ [h]"
    by (simp_all add: st'_def)
  with made uc log one many
  show "\<exists>st'. create_jump_callback (NewReturns (Some h)) RCL_RET_OK pre post th st = (st', Inr h) \<and>
      handlers st' h = Some \<lparr>pre_callback = pre, post_callback = post, notice_threshold = th\<rparr> \<and>
      jump_callbacks st' = jump_callbacks st @ [h] \<and>
      use_count st' h = 1 \<and>
      error_log st' = error_log st \<and>
      (\<forall>ret. rcl_calls (handle_step h (ReleaseHandle ret) st') =
                rcl_calls st' @ [RemoveJumpCallback h] \<and>
             handlers (handle_step h (ReleaseHandle ret) st') h = None \<and>
             use_count (handle_step h (ReleaseHandle ret) st') h = 0 \<and>
             jump_callbacks (handle_step h (ReleaseHandle ret) st') =
               (if ret = RCL_RET_OK then remove1 h (jump_callbacks st') else jump_callbacks st') \<and>
             error_log (handle_step h (ReleaseHandle ret) st') =
               (if ret = RCL_RET_OK then error_log st
                else error_log st @ [''Failed to remove time jump callback''])) \<and>
      (\<forall>ops. removals h (rcl_calls (handle_steps h ops st')) =
                removals h (rcl_calls st) + (if use_count (handle_steps h ops st') h = 0 then 1 else 0) \<and>
             (use_count (handle_steps h ops st') h = 0 \<longrightarrow>
                handlers (handle_steps h ops st') h = None) \<and>
             (0 < use_count (handle_steps h ops st') h \<longrightarrow>
                handlers (handle_steps h ops st') h = handlers st' h \<and>
                jump_callbacks (handle_steps h ops st') = jump_callbacks st' \<and>
                error_log (handle_steps h ops st') = error_log st))"
    by blast
qed

theorem create_jump_callback_rollback_and_release_witness:
  "handlers \<lparr>handlers = \<lambda>_. None, jump_callbacks = [], use_count = \<lambda>_. 0, rcl_calls = [],
             error_log = []\<rparr> 5 = None \<and>
   RCL_RET_OTHER 1 \<noteq> RCL_RET_OK \<and>
   create_jump_callback (NewReturns (Some 5)) (RCL_RET_OTHER 1) (Some 1) (Some 2)
       \<lparr>on_clock_change = True, min_forward = 0, min_backward = 0\<rparr>
       \<lparr>handlers = \<lambda>_. None, jump_callbacks = [], use_count = \<lambda>_. 0, rcl_calls = [],
        error_log = []\<rparr> =
     (\<lparr>handlers = \<lambda>_. None, jump_callbacks = [], use_count = \<lambda>_. 0,
       rcl_calls = [AddJumpCallback 5], error_log = []\<rparr>,
      Inl (RclError (RCL_RET_OTHER 1) ''Failed to add time jump callback'')) \<and>
   (\<exists>st'. create_jump_callback (NewReturns (Some 5)) RCL_RET_OK (Some 1) (Some 2)
              \<lparr>on_clock_change = True, min_forward = 0, min_backward = 0\<rparr>
              \<lparr>handlers = \<lambda>_. None, jump_callbacks = [], use_count = \<lambda>_. 0, rcl_calls = [],
               error_log = []\<rparr> = (st', Inr 5) \<and>
          jump_callbacks st' = [5] \<and>
          use_count (handle_steps 5 [CopyHandle, ReleaseHandle RCL_RET_OK] st') 5 = 1 \<and>
          removals 5 (rcl_calls (handle_steps 5 [CopyHandle, ReleaseHandle RCL_RET_OK] st')) = 0 \<and>
          jump_callbacks (handle_steps 5 [CopyHandle, ReleaseHandle RCL_RET_OK] st') = [5] \<and>
          use_count (handle_steps 5 [CopyHandle, ReleaseHandle RCL_RET_OK,
                                     ReleaseHandle (RCL_RET_OTHER 1), ReleaseHandle RCL_RET_OK] st') 5 = 0 \<and>
          removals 5 (rcl_calls (handle_steps 5 [CopyHandle, ReleaseHandle RCL_RET_OK,
                                     ReleaseHandle (RCL_RET_OTHER 1), ReleaseHandle RCL_RET_OK] st')) = 1 \<and>
          handlers (handle_steps 5 [CopyHandle, ReleaseHandle RCL_RET_OK,
                                     ReleaseHandle (RCL_RET_OTHER 1), ReleaseHandle RCL_RET_OK] st') 5 = None)"
proof -
  let ?th = "\<lparr>on_clock_change = True, min_forward = 0, min_backward = 0\<rparr>"
  let ?st = "\<lparr>handlers = \<lambda>_. None, jump_callbacks = [], use_count = \<lambda>_. 0, rcl_calls = [],
              error_log = []\<rparr>"
  let ?few = "[CopyHandle, ReleaseHandle RCL_RET_OK]"
  let ?all = "[CopyHandle, ReleaseHandle RCL_RET_OK, ReleaseHandle (RCL_RET_OTHER 1),
               ReleaseHandle RCL_RET_OK]"
  note inst = create_jump_callback_rollback_and_release[of "RCL_RET_OTHER 1" "Some 1" "Some 2" ?th ?st 5]
  have fresh: "handlers ?st 5 = None" and bad: "RCL_RET_OTHER 1 \<noteq> RCL_RET_OK" by simp_all
  from inst fresh bad
  have rollback: "create_jump_callback (NewReturns (Some 5)) (RCL_RET_OTHER 1) (Some 1) (Some 2) ?th ?st =
      (?st\<lparr>rcl_calls := rcl_calls ?st @ [AddJumpCallback 5]\<rparr>,
       Inl (RclError (RCL_RET_OTHER 1) ''Failed to add time jump callback''))"
    by blast
  from inst obtain st' where
    made: "create_jump_callback (NewReturns (Some 5)) RCL_RET_OK (Some 1) (Some 2) ?th ?st = (st', Inr 5)"
    and reg: "jump_callbacks st' = jump_callbacks ?st @ [5]"
    and many: "\<forall>ops. removals 5 (rcl_calls (handle_steps 5 ops st')) =
                removals 5 (rcl_calls ?st) + (if use_count (handle_steps 5 ops st') 5 = 0 then 1 else 0) \<and>
             (use_count (handle_steps 5 ops st') 5 = 0 \<longrightarrow>
                handlers (handle_steps 5 ops st') 5 = None) \<and>
             (0 < use_count (handle_steps 5 ops st') 5 \<longrightarrow>
                handlers (handle_steps 5 ops st') 5 = handlers st' 5 \<and>
                jump_callbacks (handle_steps 5 ops st') = jump_callbacks st' \<and>
                error_log (handle_steps 5 ops st') = error_log ?st)"
    by blast
  from made have uc: "use_count st' 5 = 1"
    by (auto simp: create_jump_callback_def rcl_clock_add_jump_callback_def Let_def)
  have few: "use_count (handle_steps 5 ?few st') 5 = 1"
    using uc by (simp add: handle_steps_def)
  have all: "use_count (handle_steps 5 ?all st') 5 = 0"
    using uc by (simp add: handle_steps_def jump_handler_deleter_def
        rcl_clock_remove_jump_callback_def Let_def)
  from many[rule_format, of ?few] few reg
  have a: "removals 5 (rcl_calls (handle_steps 5 ?few st')) = 0 \<and>
           jump_callbacks (handle_steps 5 ?few st') = [5]"
    by (simp add: removals_def)
  from many[rule_format, of ?all] all
  have b: "removals 5 (rcl_calls (handle_steps 5 ?all st')) = 1 \<and>
           handlers (handle_steps 5 ?all st') 5 = None"
    by (simp add: removals_def)
  from rollback have rollback': "create_jump_callback (NewReturns (Some 5)) (RCL_RET_OTHER 1) (Some 1) (Some 2) ?th ?st =
     (\<lparr>handlers = \<lambda>_. None, jump_callbacks = [], use_count = \<lambda>_. 0,
       rcl_calls = [AddJumpCallback 5], error_log = []\<rparr>,
      Inl (RclError (RCL_RET_OTHER 1) ''Failed to add time jump callback''))"
    by simp
  from reg have reg': "jump_callbacks st' = [5]" by simp
  from fresh bad rollback' made reg' few all a b show ?thesis by blast
qed


section \<open>Properties of the entities collector\<close>

subsection \<open>The resync as one combined effect\<close>

lemma non_null_set: "a \<in> set (non_null ptrs) \<longleftrightarrow> Some a \<in> set ptrs"
  by (induction ptrs) (auto simp: non_null_def split: option.splits)

lemma non_null_append: "non_null (xs @ ys) = non_null xs @ non_null ys"
  by (simp add: non_null_def)

lemma push_all_append:
  "push_all \<sigma> (ts @ ts') q =
     (case push_all \<sigma> ts q of Inl e \<Rightarrow> Inl e | Inr q' \<Rightarrow> push_all \<sigma> ts' q')"
  unfolding push_all_def by (rule for_each_append)

lemma push_all_total:
  "None \<notin> set q \<Longrightarrow> \<exists>q'. push_all \<sigma> ts q = Inr q' \<and> None \<notin> set q'"
proof (induction ts arbitrary: q)
  case Nil
  then show ?case by (simp add: push_all_def)
next
  case (Cons a ts)
  from Cons.prems have "None \<notin> set (q @ [Some a])" by simp
  from reorder_queue_total[OF this, of \<sigma>] obtain q1 where
    q1: "add_timer \<sigma> (Some a) q = Inr q1" "None \<notin> set q1" by (auto simp: add_timer_def)
  from Cons.IH[OF q1(2)] q1(1) show ?case by (simp add: push_all_def)
qed

lemma wiring_effect_nothing: "wiring_effect g [] {} s = Inr s"
  by (simp add: wiring_effect_def push_all_def)

lemma wiring_effect_then:
  assumes "wiring_effect g ts K s = Inr s'"
  shows "wiring_effect g ts' K' s' = wiring_effect g (ts @ ts') (K \<union> K') s"
proof -
  from assms obtain q where q: "push_all (trigger_times g) ts (timers_queue s) = Inr q"
    and s': "s' = s\<lparr>timers_queue := q,
                 entity_callback := (\<lambda>k. if k \<in> K then (executor_context s, executor_callback s)
                        else entity_callback s k)\<rparr>"
    by (auto simp: wiring_effect_def split: sum.splits)
  show ?thesis
    by (cases "push_all (trigger_times g) ts' q")
       (auto simp: wiring_effect_def push_all_append q s' fun_eq_iff)
qed

lemma wiring_effect_fails:
  assumes "wiring_effect g ts K s = Inl e"
  shows "wiring_effect g (ts @ ts') K' s = Inl e"
  using assms by (auto simp: wiring_effect_def push_all_append split: sum.splits)

lemma for_each_wiring_effect:
  assumes "\<And>x s. x \<in> set xs \<Longrightarrow> f x s = wiring_effect g (T x) (S x) s"
  shows "for_each f xs s = wiring_effect g (concat (map T xs)) (\<Union>x \<in> set xs. S x) s"
  using assms
proof (induction xs arbitrary: s)
  case Nil
  then show ?case by (simp add: wiring_effect_nothing)
next
  case (Cons x xs)
  have head: "f x s = wiring_effect g (T x) (S x) s" by (rule Cons.prems) simp
  show ?case
  proof (cases "wiring_effect g (T x) (S x) s")
    case (Inl e)
    from wiring_effect_fails[OF this] head Inl show ?thesis by simp
  next
    case (Inr s1)
    have "for_each f xs s1 = wiring_effect g (concat (map T xs)) (\<Union>x \<in> set xs. S x) s1"
      by (rule Cons.IH) (simp add: Cons.prems)
    also have "\<dots> = wiring_effect g (T x @ concat (map T xs)) (S x \<union> (\<Union>x \<in> set xs. S x)) s"
      by (rule wiring_effect_then[OF Inr])
    finally show ?thesis using head Inr by simp
  qed
qed

lemma set_callbacks_eq:
  "set_callbacks kind slot ptrs s =
     s\<lparr>entity_callback := (\<lambda>k. if k \<in> {kind} \<times> set (non_null ptrs) then slot else entity_callback s k)\<rparr>"
proof (induction ptrs arbitrary: s)
  case Nil
  then show ?case by (simp add: set_callbacks_def non_null_def)
next
  case (Cons p ptrs)
  have step: "set_callbacks kind slot (p # ptrs) s =
      set_callbacks kind slot ptrs
        (case p of None \<Rightarrow> s | Some a \<Rightarrow> set_events_executor_callback kind a slot s)"
    by (simp add: set_callbacks_def)
  show ?case
    unfolding step Cons.IH
    by (cases p) (auto simp: set_events_executor_callback_def non_null_def fun_eq_iff)
qed

lemma push_timers_effect:
  "for_each (\<lambda>timer s. case timer of None \<Rightarrow> Inr s | Some a \<Rightarrow> push_timer g timer s) ptrs s =
     wiring_effect g (non_null ptrs) {} s"
proof -
  have "for_each (\<lambda>timer s. case timer of None \<Rightarrow> Inr s | Some a \<Rightarrow> push_timer g timer s) ptrs s =
      wiring_effect g (concat (map (\<lambda>p. case p of None \<Rightarrow> [] | Some a \<Rightarrow> [a]) ptrs))
        (\<Union>x \<in> set ptrs. {}) s"
  proof (rule for_each_wiring_effect)
    fix x s
    show "(case x of None \<Rightarrow> Inr s | Some a \<Rightarrow> push_timer g x s) =
        wiring_effect g (case x of None \<Rightarrow> [] | Some a \<Rightarrow> [a]) {} s"
      by (cases x)
         (auto simp: wiring_effect_nothing wiring_effect_def push_timer_def push_all_def
            split: sum.splits)
  qed
  then show ?thesis by (simp add: non_null_def)
qed

lemma wire_group_effect:
  "wire_group g weak_group s = wiring_effect g (group_timers g weak_group) (group_entities g weak_group) s"
proof (cases "group_lock g weak_group")
  case None
  then show ?thesis
    by (simp add: wire_group_def group_timers_def group_entities_def wiring_effect_nothing)
next
  case (Some grp)
  show ?thesis
  proof (cases "can_be_taken_from grp")
    case False
    with Some show ?thesis
      by (simp add: wire_group_def group_timers_def group_entities_def wiring_effect_nothing)
  next
    case True
    show ?thesis
    proof (cases "push_all (trigger_times g) (non_null (timer_ptrs grp)) (timers_queue s)")
      case (Inl e)
      with Some True show ?thesis
        by (simp add: wire_group_def group_timers_def group_entities_def push_timers_effect
            wiring_effect_def)
    next
      case (Inr q)
      with Some True show ?thesis
        by (simp add: wire_group_def group_timers_def group_entities_def push_timers_effect
            wiring_effect_def set_callbacks_eq Let_def)
           (auto simp: fun_eq_iff)
    qed
  qed
qed

lemma node_effect:
  "(if \<not> node_lock g weak_node then Inr s
    else for_each (wire_group g) (get_callback_groups g weak_node) s) =
   wiring_effect g (node_timers g weak_node) (node_entities g weak_node) s"
proof (cases "node_lock g weak_node")
  case False
  then show ?thesis by (simp add: node_timers_def node_entities_def wiring_effect_nothing)
next
  case True
  have "for_each (wire_group g) (get_callback_groups g weak_node) s =
      wiring_effect g (concat (map (group_timers g) (get_callback_groups g weak_node)))
        (\<Union>x \<in> set (get_callback_groups g weak_node). group_entities g x) s"
    by (rule for_each_wiring_effect) (rule wire_group_effect)
  with True show ?thesis by (simp add: node_timers_def node_entities_def)
qed

lemma set_entities_callbacks_effect:
  "set_entities_callbacks g s =
     wiring_effect g (concat (map (node_timers g) (weak_nodes s)))
       (\<Union>n \<in> set (weak_nodes s). node_entities g n) s"
  unfolding set_entities_callbacks_def
  by (rule for_each_wiring_effect) (rule node_effect)

lemma execute_effect:
  "execute g s =
     wiring_effect g (concat (map (node_timers g) (weak_nodes s)))
       (\<Union>n \<in> set (weak_nodes s). node_entities g n) (s\<lparr>timers_queue := []\<rparr>)"
  by (simp add: execute_def clear_all_timers_def clear_all_def set_entities_callbacks_effect)

lemma execute_result:
  "\<exists>q. push_all (trigger_times g) (concat (map (node_timers g) (weak_nodes s))) [] = Inr q \<and>
       execute g s =
         Inr (s\<lparr>timers_queue := q,
                entity_callback :=
                  (\<lambda>k. if k \<in> (\<Union>n \<in> set (weak_nodes s). node_entities g n)
                       then (executor_context s, executor_callback s)
                       else entity_callback s k)\<rparr>)"
proof -
  from push_all_total[of "[]" "trigger_times g" "concat (map (node_timers g) (weak_nodes s))"]
  obtain q where "push_all (trigger_times g) (concat (map (node_timers g) (weak_nodes s))) [] = Inr q"
    by auto
  then show ?thesis by (simp add: execute_effect wiring_effect_def fun_eq_iff)
qed

text \<open>
  Claim C5. For every state of the collector and every node graph, \<^verbatim>\<open>execute\<close>
  (the resync) returns, and running it again on the state it produced, with the graph
  unchanged, returns that same state: the same timers queue and the same callback slot on
  every entity. The tracked nodes, the nodes' flags and the guard condition slots are not
  touched by it.
\<close>

theorem execute_twice_same_wiring:
  "\<exists>s'. execute g s = Inr s' \<and> execute g s' = Inr s' \<and>
        weak_nodes s' = weak_nodes s \<and> has_executor s' = has_executor s \<and>
        guard_condition_callback s' = guard_condition_callback s"
proof -
  from execute_result[of g s] obtain q where
    q: "push_all (trigger_times g) (concat (map (node_timers g) (weak_nodes s))) [] = Inr q"
    and once: "execute g s =
         Inr (s\<lparr>timers_queue := q,
                entity_callback :=
                  (\<lambda>k. if k \<in> (\<Union>n \<in> set (weak_nodes s). node_entities g n)
                       then (executor_context s, executor_callback s)
                       else entity_callback s k)\<rparr>)"
    by blast
  define s' where "s' = s\<lparr>timers_queue := q,
                entity_callback :=
                  (\<lambda>k. if k \<in> (\<Union>n \<in> set (weak_nodes s). node_entities g n)
                       then (executor_context s, executor_callback s)
                       else entity_callback s k)\<rparr>"
  have "execute g s' = Inr s'"
    by (simp add: execute_effect wiring_effect_def s'_def q fun_eq_iff)
  moreover have "execute g s = Inr s'" using once by (simp add: s'_def)
  moreover have "weak_nodes s' = weak_nodes s" "has_executor s' = has_executor s"
    "guard_condition_callback s' = guard_condition_callback s"
    by (simp_all add: s'_def)
  ultimately show ?thesis by blast
qed

theorem execute_twice_same_wiring_witness:
  "\<exists>s'. execute
          \<lparr>node_lock = (\<lambda>n. n = 1),
           get_callback_groups = (\<lambda>n. if n = 1 then [10, 11, 12] else []),
           group_lock = (\<lambda>w. if w = 10
                              then Some \<lparr>can_be_taken_from = True, timer_ptrs = [Some 1, None, Some 2],
                                         subscription_ptrs = [Some 7], service_ptrs = [],
                                         client_ptrs = [Some 8], waitable_ptrs = []\<rparr>
                              else if w = 11
                              then Some \<lparr>can_be_taken_from = False, timer_ptrs = [Some 3],
                                         subscription_ptrs = [Some 6], service_ptrs = [],
                                         client_ptrs = [], waitable_ptrs = []\<rparr>
                              else None),
           trigger_times = (\<lambda>_. 0)(1 := 50, 2 := 10)\<rparr>
          \<lparr>has_executor = (\<lambda>n. n = 1), weak_nodes = [1, 2], executor_context = Some 100,
           executor_callback = Some 200, timers_queue = [Some 9],
           entity_callback = (\<lambda>_. (None, None)), guard_condition_callback = (\<lambda>_. (None, None))\<rparr>
        = Inr s' \<and>
      execute
          \<lparr>node_lock = (\<lambda>n. n = 1),
           get_callback_groups = (\<lambda>n. if n = 1 then [10, 11, 12] else []),
           group_lock = (\<lambda>w. if w = 10
                              then Some \<lparr>can_be_taken_from = True, timer_ptrs = [Some 1, None, Some 2],
                                         subscription_ptrs = [Some 7], service_ptrs = [],
                                         client_ptrs = [Some 8], waitable_ptrs = []\<rparr>
                              else if w = 11
                              then Some \<lparr>can_be_taken_from = False, timer_ptrs = [Some 3],
                                         subscription_ptrs = [Some 6], service_ptrs = [],
                                         client_ptrs = [], waitable_ptrs = []\<rparr>
                              else None),
           trigger_times = (\<lambda>_. 0)(1 := 50, 2 := 10)\<rparr> s' = Inr s' \<and>
      timers_queue s' = [Some 2, Some 1] \<and>
      entity_callback s' (Subscription, 7) = (Some 100, Some 200) \<and>
      entity_callback s' (Client, 8) = (Some 100, Some 200) \<and>
      entity_callback s' (Subscription, 6) = (None, None)"
proof -
  let ?g = "\<lparr>node_lock = (\<lambda>n. n = 1),
           get_callback_groups = (\<lambda>n. if n = 1 then [10, 11, 12] else []),
           group_lock = (\<lambda>w. if w = 10
                              then Some \<lparr>can_be_taken_from = True, timer_ptrs = [Some 1, None, Some 2],
                                         subscription_ptrs = [Some 7], service_ptrs = [],
                                         client_ptrs = [Some 8], waitable_ptrs = []\<rparr>
                              else if w = 11
                              then Some \<lparr>can_be_taken_from = False, timer_ptrs = [Some 3],
                                         subscription_ptrs = [Some 6], service_ptrs = [],
                                         client_ptrs = [], waitable_ptrs = []\<rparr>
                              else None),
           trigger_times = (\<lambda>_. 0)(1 := 50, 2 := 10)\<rparr>"
  let ?s = "\<lparr>has_executor = (\<lambda>n. n = 1), weak_nodes = [1, 2], executor_context = Some 100,
           executor_callback = Some 200, timers_queue = [Some 9],
           entity_callback = (\<lambda>_. (None, None)), guard_condition_callback = (\<lambda>_. (None, None))\<rparr>"
  from execute_twice_same_wiring[of ?g ?s] obtain s' where
    once: "execute ?g ?s = Inr s'" and twice: "execute ?g s' = Inr s'" by blast
  from once have
    "timers_queue s' = [Some 2, Some 1] \<and>
     entity_callback s' (Subscription, 7) = (Some 100, Some 200) \<and>
     entity_callback s' (Client, 8) = (Some 100, Some 200) \<and>
     entity_callback s' (Subscription, 6) = (None, None)"
    by (auto simp: execute_def clear_all_timers_def clear_all_def set_entities_callbacks_def
        wire_group_def push_timer_def add_timer_def reorder_queue_def trigger_key_def
        set_callbacks_def set_events_executor_callback_def Let_def)
  with once twice show ?thesis by blast
qed

subsection \<open>Destruction\<close>

lemma destructor_loop:
  "fold (\<lambda>weak_node s.
              if node_lock g weak_node
              then s\<lparr>has_executor := (has_executor s)(weak_node := False)\<rparr>
              else s) ws s =
   s\<lparr>has_executor := (\<lambda>n. if n \<in> set ws \<and> node_lock g n then False else has_executor s n)\<rparr>"
proof (induction ws arbitrary: s)
  case Nil
  then show ?case by simp
next
  case (Cons w ws)
  show ?case
    unfolding fold_simps Cons.IH
    by (auto simp: fun_eq_iff)
qed

lemma destructor_eq:
  "destructor g s =
     s\<lparr>has_executor := (\<lambda>n. if n \<in> set (weak_nodes s) \<and> node_lock g n then False
                            else has_executor s n),
       weak_nodes := []\<rparr>"
  by (simp add: destructor_def destructor_loop)

lemma add_node_outcome:
  "snd (add_node n s) =
     (if has_executor s n then Threw (RuntimeError ''Node has already been added to an executor.'')
      else Returned)"
  by (simp add: add_node_def Let_def)

lemma add_node_refused: "has_executor s n \<Longrightarrow> fst (add_node n s) = s"
proof -
  assume "has_executor s n"
  then have "(has_executor s)(n := True) = has_executor s" by (auto simp: fun_eq_iff)
  with \<open>has_executor s n\<close> show ?thesis by (simp add: add_node_def Let_def)
qed

lemma add_node_accepted:
  "\<not> has_executor s n \<Longrightarrow>
     fst (add_node n s) = s\<lparr>has_executor := (has_executor s)(n := True),
                             weak_nodes := weak_nodes s @ [n]\<rparr>"
  by (simp add: add_node_def Let_def)

text \<open>
  Claim C8. The destructor, with no call of \<^verbatim>\<open>remove_node\<close> before it, clears the
  flag of every tracked node whose weak pointer still locks, so that a later
  \<^verbatim>\<open>add_node\<close> of such a node succeeds; it leaves every other flag as it was, drops all
  tracked references, those that no longer lock included, and has no failing branch.
\<close>

theorem destructor_disassociates_tracked_nodes:
  "destructor g s =
     s\<lparr>has_executor := (\<lambda>n. if n \<in> set (weak_nodes s) \<and> node_lock g n then False
                            else has_executor s n),
       weak_nodes := []\<rparr> \<and>
   (\<forall>n \<in> set (weak_nodes s). node_lock g n \<longrightarrow>
      \<not> has_executor (destructor g s) n \<and> snd (add_node n (destructor g s)) = Returned) \<and>
   (\<forall>n. \<not> node_lock g n \<longrightarrow> has_executor (destructor g s) n = has_executor s n) \<and>
   (\<forall>n. n \<notin> set (weak_nodes s) \<longrightarrow> has_executor (destructor g s) n = has_executor s n)"
  by (simp add: destructor_eq add_node_outcome)

theorem destructor_disassociates_tracked_nodes_witness:
  "has_executor
     (destructor
        \<lparr>node_lock = (\<lambda>n. n \<noteq> 3), get_callback_groups = (\<lambda>_. []), group_lock = (\<lambda>_. None),
         trigger_times = (\<lambda>_. 0)\<rparr>
        \<lparr>has_executor = (\<lambda>n. n \<in> {1, 2, 3, 4}), weak_nodes = [1, 2, 3], executor_context = None,
         executor_callback = None, timers_queue = [],
         entity_callback = (\<lambda>_. (None, None)), guard_condition_callback = (\<lambda>_. (None, None))\<rparr>)
   = (\<lambda>n. n = 3 \<or> n = 4) \<and>
   weak_nodes
     (destructor
        \<lparr>node_lock = (\<lambda>n. n \<noteq> 3), get_callback_groups = (\<lambda>_. []), group_lock = (\<lambda>_. None),
         trigger_times = (\<lambda>_. 0)\<rparr>
        \<lparr>has_executor = (\<lambda>n. n \<in> {1, 2, 3, 4}), weak_nodes = [1, 2, 3], executor_context = None,
         executor_callback = None, timers_queue = [],
         entity_callback = (\<lambda>_. (None, None)), guard_condition_callback = (\<lambda>_. (None, None))\<rparr>)
   = [] \<and>
   snd (add_node 1
     (destructor
        \<lparr>node_lock = (\<lambda>n. n \<noteq> 3), get_callback_groups = (\<lambda>_. []), group_lock = (\<lambda>_. None),
         trigger_times = (\<lambda>_. 0)\<rparr>
        \<lparr>has_executor = (\<lambda>n. n \<in> {1, 2, 3, 4}), weak_nodes = [1, 2, 3], executor_context = None,
         executor_callback = None, timers_queue = [],
         entity_callback = (\<lambda>_. (None, None)), guard_condition_callback = (\<lambda>_. (None, None))\<rparr>))
   = Returned"
proof -
  let ?g = "\<lparr>node_lock = (\<lambda>n. n \<noteq> 3), get_callback_groups = (\<lambda>_. []), group_lock = (\<lambda>_. None),
         trigger_times = (\<lambda>_. 0)\<rparr>"
  let ?s = "\<lparr>has_executor = (\<lambda>n. n \<in> {1, 2, 3, 4}), weak_nodes = [1, 2, 3], executor_context = None,
         executor_callback = None, timers_queue = [],
         entity_callback = (\<lambda>_. (None, None)), guard_condition_callback = (\<lambda>_. (None, None))\<rparr>"
  note inst = destructor_disassociates_tracked_nodes[of ?g ?s]
  from inst have eq: "destructor ?g ?s =
      ?s\<lparr>has_executor := (\<lambda>n. if n \<in> set (weak_nodes ?s) \<and> node_lock ?g n then False
                            else has_executor ?s n), weak_nodes := []\<rparr>"
    by blast
  from inst have tracked: "\<forall>n \<in> set (weak_nodes ?s). node_lock ?g n \<longrightarrow>
      \<not> has_executor (destructor ?g ?s) n \<and> snd (add_node n (destructor ?g ?s)) = Returned"
    by blast
  have "(1::nat) \<in> set (weak_nodes ?s)" and "node_lock ?g 1" by simp_all
  with tracked have again: "snd (add_node 1 (destructor ?g ?s)) = Returned" by blast
  have flags: "has_executor (destructor ?g ?s) = (\<lambda>n. n = 3 \<or> n = 4)"
    unfolding eq by (auto simp: fun_eq_iff)
  have gone: "weak_nodes (destructor ?g ?s) = []" unfolding eq by simp
  from flags gone again show ?thesis by blast
qed

subsection \<open>Single ownership of a node\<close>

lemma set_callbacks_flags: "has_executor (set_callbacks kind slot ptrs s) = has_executor s"
  by (simp add: set_callbacks_eq)

lemma clear_timers_flags:
  "has_executor (fold (\<lambda>timer s. case timer of None \<Rightarrow> s | Some a \<Rightarrow> clear_timer timer s) ptrs s) =
     has_executor s"
  by (induction ptrs arbitrary: s) (auto simp: clear_timer_def split: option.splits)

lemma unwire_group_flags: "has_executor (unwire_group g weak_group s) = has_executor s"
  by (simp add: unwire_group_def set_callbacks_flags clear_timers_flags split: option.splits)

lemma unwire_groups_flags: "has_executor (fold (unwire_group g) groups s) = has_executor s"
  by (induction groups arbitrary: s) (simp_all add: unwire_group_flags)

lemma remove_node_flags: "has_executor (fst (remove_node g ret n s)) = has_executor s"
  by (simp add: remove_node_def Let_def unwire_groups_flags split: option.splits)

lemma execute_flags: "execute g s = Inr s' \<Longrightarrow> has_executor s' = has_executor s"
  using execute_result[of g s] by auto

lemma collector_step_keeps_flag:
  assumes "has_executor s n" and "c \<noteq> Destroy"
  shows "has_executor (fst (collector_step g c s)) n"
proof (cases c)
  case (AddNode m)
  with assms(1) show ?thesis by (simp add: add_node_def Let_def)
next
  case (RemoveNode m ret)
  with assms(1) show ?thesis by (simp add: remove_node_flags)
next
  case Execute
  with assms(1) show ?thesis by (auto simp: execute_flags split: sum.splits)
next
  case Destroy
  with assms(2) show ?thesis by simp
qed

lemma no_add_while_flag_set:
  "has_executor s n \<Longrightarrow> Destroy \<notin> set cs \<Longrightarrow>
     successful_adds n cs (snd (collector_calls g cs s)) = 0"
proof (induction cs arbitrary: s)
  case Nil
  then show ?case by simp
next
  case (Cons c cs)
  obtain s1 out where step: "collector_step g c s = (s1, out)" by (cases "collector_step g c s")
  from Cons.prems have nd: "c \<noteq> Destroy" "Destroy \<notin> set cs" by auto
  from collector_step_keeps_flag[OF Cons.prems(1) nd(1), of g] step
  have "has_executor s1 n" by simp
  from Cons.IH[OF this nd(2)] have rest: "successful_adds n cs (snd (collector_calls g cs s1)) = 0" .
  have "\<not> (c = AddNode n \<and> out = Returned)"
  proof
    assume "c = AddNode n \<and> out = Returned"
    with step have "snd (add_node n s) = Returned" by simp
    with Cons.prems(1) show False by (simp add: add_node_outcome)
  qed
  with rest step show ?case by (auto split: prod.splits)
qed

lemma at_most_one_add:
  "Destroy \<notin> set cs \<Longrightarrow> successful_adds n cs (snd (collector_calls g cs s)) \<le> 1"
proof (induction cs arbitrary: s)
  case Nil
  then show ?case by simp
next
  case (Cons c cs)
  obtain s1 out where step: "collector_step g c s = (s1, out)" by (cases "collector_step g c s")
  from Cons.prems have nd: "Destroy \<notin> set cs" by auto
  show ?case
  proof (cases "c = AddNode n \<and> out = Returned")
    case True
    with step have "s1 = fst (add_node n s)" by simp
    then have "has_executor s1 n" by (simp add: add_node_def Let_def)
    from no_add_while_flag_set[OF this nd, of g] True step show ?thesis
      by (auto split: prod.splits)
  next
    case False
    with Cons.IH[OF nd, of s1] step show ?thesis by (auto split: prod.splits)
  qed
qed

lemma erase_matching_eq:
  "erase_matching g n ws =
     (if node_lock g n \<and> n \<in> set ws then Some (remove1 n ws) else None)"
  by (induction ws) auto

lemma clear_timers_eq:
  "fold (\<lambda>timer s. case timer of None \<Rightarrow> s | Some a \<Rightarrow> clear_timer timer s) ptrs s =
     s\<lparr>timers_queue := fold (\<lambda>a. remove_timer (Some a)) (non_null ptrs) (timers_queue s)\<rparr>"
proof (induction ptrs arbitrary: s)
  case Nil
  then show ?case by (simp add: non_null_def)
next
  case (Cons p ptrs)
  show ?case
    unfolding fold_simps Cons.IH
    by (cases p) (simp_all add: non_null_def clear_timer_def)
qed

lemma unwire_group_eq:
  "unwire_group g weak_group s =
     s\<lparr>timers_queue :=
         fold (\<lambda>a. remove_timer (Some a)) (group_timers g weak_group) (timers_queue s),
       entity_callback :=
         (\<lambda>k. if k \<in> group_entities g weak_group then (None, None) else entity_callback s k)\<rparr>"
proof (cases "group_lock g weak_group")
  case None
  then show ?thesis by (simp add: unwire_group_def group_timers_def group_entities_def)
next
  case (Some grp)
  show ?thesis
  proof (cases "can_be_taken_from grp")
    case False
    with Some show ?thesis by (simp add: unwire_group_def group_timers_def group_entities_def)
  next
    case True
    with Some show ?thesis
      by (simp add: unwire_group_def group_timers_def group_entities_def set_callbacks_eq
          clear_timers_eq)
         (auto simp: fun_eq_iff)
  qed
qed

lemma unwire_groups_eq:
  "fold (unwire_group g) groups s =
     s\<lparr>timers_queue :=
         fold (\<lambda>a. remove_timer (Some a)) (concat (map (group_timers g) groups)) (timers_queue s),
       entity_callback :=
         (\<lambda>k. if k \<in> (\<Union>weak_group \<in> set groups. group_entities g weak_group) then (None, None)
              else entity_callback s k)\<rparr>"
proof (induction groups arbitrary: s)
  case Nil
  then show ?case by simp
next
  case (Cons weak_group groups)
  have "fold (unwire_group g) (weak_group # groups) s =
      fold (unwire_group g) groups (unwire_group g weak_group s)"
    by simp
  also have "\<dots> = (unwire_group g weak_group s)\<lparr>timers_queue :=
         fold (\<lambda>a. remove_timer (Some a)) (concat (map (group_timers g) groups))
           (timers_queue (unwire_group g weak_group s)),
       entity_callback :=
         (\<lambda>k. if k \<in> (\<Union>weak_group \<in> set groups. group_entities g weak_group) then (None, None)
              else entity_callback (unwire_group g weak_group s) k)\<rparr>"
    by (rule Cons.IH)
  also have "\<dots> = s\<lparr>timers_queue :=
         fold (\<lambda>a. remove_timer (Some a)) (concat (map (group_timers g) (weak_group # groups)))
           (timers_queue s),
       entity_callback :=
         (\<lambda>k. if k \<in> (\<Union>weak_group \<in> set (weak_group # groups). group_entities g weak_group)
              then (None, None) else entity_callback s k)\<rparr>"
    by (simp add: unwire_group_eq fun_eq_iff)
  finally show ?case .
qed

lemma remove_node_untracked:
  "\<not> (n \<in> set (weak_nodes s) \<and> node_lock g n) \<Longrightarrow> remove_node g ret n s = (s, Returned)"
  by (auto simp: remove_node_def erase_matching_eq)

lemma remove_node_registration_failure:
  "n \<in> set (weak_nodes s) \<Longrightarrow> node_lock g n \<Longrightarrow> ret \<noteq> RCL_RET_OK \<Longrightarrow>
     remove_node g ret n s = (s, Threw (RuntimeError ''Couldn't set guard condition callback''))"
  by (simp add: remove_node_def erase_matching_eq)

lemma remove_node_tracked:
  "n \<in> set (weak_nodes s) \<Longrightarrow> node_lock g n \<Longrightarrow>
     remove_node g RCL_RET_OK n s =
       (s\<lparr>weak_nodes := remove1 n (weak_nodes s),
          guard_condition_callback := (guard_condition_callback s)(n := (None, None)),
          timers_queue := fold (\<lambda>a. remove_timer (Some a)) (node_timers g n) (timers_queue s),
          entity_callback :=
            (\<lambda>k. if k \<in> node_entities g n then (None, None) else entity_callback s k)\<rparr>,
        Returned)"
  by (simp add: remove_node_def erase_matching_eq Let_def unwire_groups_eq node_timers_def
      node_entities_def fun_eq_iff)

text \<open>
  Claim C1, as stated, fails. The claim lets \<^verbatim>\<open>add_node\<close> succeed again once a
  matching \<^verbatim>\<open>remove_node\<close> has run. On a fresh collector, \<^verbatim>\<open>add_node\<close> of node 1
  succeeds, the matching \<^verbatim>\<open>remove_node\<close> succeeds and erases the stored reference, but
  the node's flag is still set, and the next \<^verbatim>\<open>add_node\<close> of node 1 throws.
\<close>

theorem add_node_refused_after_remove_node:
  "snd (collector_calls
          \<lparr>node_lock = (\<lambda>_. True), get_callback_groups = (\<lambda>_. []), group_lock = (\<lambda>_. None),
           trigger_times = (\<lambda>_. 0)\<rparr>
          [AddNode 1, RemoveNode 1 RCL_RET_OK, AddNode 1]
          \<lparr>has_executor = (\<lambda>_. False), weak_nodes = [], executor_context = None,
           executor_callback = None, timers_queue = [],
           entity_callback = (\<lambda>_. (None, None)), guard_condition_callback = (\<lambda>_. (None, None))\<rparr>)
   = [Returned, Returned, Threw (RuntimeError ''Node has already been added to an executor.'')] \<and>
   weak_nodes (fst (collector_calls
          \<lparr>node_lock = (\<lambda>_. True), get_callback_groups = (\<lambda>_. []), group_lock = (\<lambda>_. None),
           trigger_times = (\<lambda>_. 0)\<rparr>
          [AddNode 1, RemoveNode 1 RCL_RET_OK]
          \<lparr>has_executor = (\<lambda>_. False), weak_nodes = [], executor_context = None,
           executor_callback = None, timers_queue = [],
           entity_callback = (\<lambda>_. (None, None)), guard_condition_callback = (\<lambda>_. (None, None))\<rparr>))
   = [] \<and>
   has_executor (fst (collector_calls
          \<lparr>node_lock = (\<lambda>_. True), get_callback_groups = (\<lambda>_. []), group_lock = (\<lambda>_. None),
           trigger_times = (\<lambda>_. 0)\<rparr>
          [AddNode 1, RemoveNode 1 RCL_RET_OK]
          \<lparr>has_executor = (\<lambda>_. False), weak_nodes = [], executor_context = None,
           executor_callback = None, timers_queue = [],
           entity_callback = (\<lambda>_. (None, None)), guard_condition_callback = (\<lambda>_. (None, None))\<rparr>)) 1"
  by (simp add: add_node_def remove_node_def Let_def)

text \<open>
  Claim C1, amended. \<^verbatim>\<open>add_node\<close> throws exactly when the node's flag is already
  set, and then changes nothing; otherwise it sets the flag and appends a weak reference
  to the node. The collector's \<^verbatim>\<open>remove_node\<close> does nothing when no stored reference
  locks to the node; when one does and unsetting the guard condition callback fails, it
  throws and changes nothing; otherwise it unsets the node's guard condition callback,
  removes the timers and unsets the callbacks of the entities in the node's groups that
  lock and can be taken from, and erases the first stored reference to the node. In no
  case does it touch a flag, so \<^verbatim>\<open>add_node\<close> of a node whose flag is set still throws
  after \<^verbatim>\<open>remove_node\<close>. Hence in any sequence of \<^verbatim>\<open>add_node\<close>, \<^verbatim>\<open>remove_node\<close> and
  \<^verbatim>\<open>execute\<close> calls on the collector, from any state, at most one \<^verbatim>\<open>add_node\<close> of a
  given node succeeds, whatever \<^verbatim>\<open>remove_node\<close> calls lie in between. After the
  collector's destruction, \<^verbatim>\<open>add_node\<close> of a node it tracked, and that is still alive,
  succeeds again.
\<close>

theorem node_single_ownership:
  "snd (add_node n s) =
     (if has_executor s n then Threw (RuntimeError ''Node has already been added to an executor.'')
      else Returned) \<and>
   (has_executor s n \<longrightarrow> fst (add_node n s) = s) \<and>
   (\<not> has_executor s n \<longrightarrow>
      fst (add_node n s) = s\<lparr>has_executor := (has_executor s)(n := True),
                              weak_nodes := weak_nodes s @ [n]\<rparr>) \<and>
   has_executor (fst (remove_node g ret n s)) = has_executor s \<and>
   (\<not> (n \<in> set (weak_nodes s) \<and> node_lock g n) \<longrightarrow> remove_node g ret n s = (s, Returned)) \<and>
   (n \<in> set (weak_nodes s) \<and> node_lock g n \<and> ret \<noteq> RCL_RET_OK \<longrightarrow>
      remove_node g ret n s =
        (s, Threw (RuntimeError ''Couldn't set guard condition callback''))) \<and>
   (n \<in> set (weak_nodes s) \<and> node_lock g n \<longrightarrow>
      remove_node g RCL_RET_OK n s =
        (s\<lparr>weak_nodes := remove1 n (weak_nodes s),
           guard_condition_callback := (guard_condition_callback s)(n := (None, None)),
           timers_queue := fold (\<lambda>a. remove_timer (Some a)) (node_timers g n) (timers_queue s),
           entity_callback :=
             (\<lambda>k. if k \<in> node_entities g n then (None, None) else entity_callback s k)\<rparr>,
         Returned)) \<and>
   (has_executor s n \<longrightarrow>
      snd (add_node n (fst (remove_node g ret n s))) =
        Threw (RuntimeError ''Node has already been added to an executor.'')) \<and>
   (Destroy \<notin> set calls \<longrightarrow> successful_adds n calls (snd (collector_calls g calls s)) \<le> 1) \<and>
   (n \<in> set (weak_nodes s) \<and> node_lock g n \<longrightarrow> snd (add_node n (destructor g s)) = Returned)"
proof (intro conjI impI)
  show "snd (add_node n s) =
     (if has_executor s n then Threw (RuntimeError ''Node has already been added to an executor.'')
      else Returned)"
    by (rule add_node_outcome)
  show "has_executor (fst (remove_node g ret n s)) = has_executor s"
    by (rule remove_node_flags)
next
  assume "has_executor s n"
  then show "fst (add_node n s) = s" by (rule add_node_refused)
next
  assume "\<not> has_executor s n"
  then show "fst (add_node n s) = s\<lparr>has_executor := (has_executor s)(n := True),
                              weak_nodes := weak_nodes s @ [n]\<rparr>"
    by (rule add_node_accepted)
next
  assume "\<not> (n \<in> set (weak_nodes s) \<and> node_lock g n)"
  then show "remove_node g ret n s = (s, Returned)" by (rule remove_node_untracked)
next
  assume "n \<in> set (weak_nodes s) \<and> node_lock g n \<and> ret \<noteq> RCL_RET_OK"
  then show "remove_node g ret n s =
        (s, Threw (RuntimeError ''Couldn't set guard condition callback''))"
    by (simp add: remove_node_registration_failure)
next
  assume "n \<in> set (weak_nodes s) \<and> node_lock g n"
  then show "remove_node g RCL_RET_OK n s =
        (s\<lparr>weak_nodes := remove1 n (weak_nodes s),
           guard_condition_callback := (guard_condition_callback s)(n := (None, None)),
           timers_queue := fold (\<lambda>a. remove_timer (Some a)) (node_timers g n) (timers_queue s),
           entity_callback :=
             (\<lambda>k. if k \<in> node_entities g n then (None, None) else entity_callback s k)\<rparr>,
         Returned)"
    by (simp add: remove_node_tracked)
next
  assume "has_executor s n"
  then have "has_executor (fst (remove_node g ret n s)) n" by (simp add: remove_node_flags)
  then show "snd (add_node n (fst (remove_node g ret n s))) =
        Threw (RuntimeError ''Node has already been added to an executor.'')"
    by (simp add: add_node_outcome)
next
  assume "Destroy \<notin> set calls"
  then show "successful_adds n calls (snd (collector_calls g calls s)) \<le> 1"
    by (rule at_most_one_add)
next
  assume "n \<in> set (weak_nodes s) \<and> node_lock g n"
  then show "snd (add_node n (destructor g s)) = Returned"
    by (simp add: destructor_eq add_node_outcome)
qed

theorem node_single_ownership_witness:
  "snd (add_node 1
     \<lparr>has_executor = (\<lambda>_. False), weak_nodes = [], executor_context = None,
      executor_callback = None, timers_queue = [],
      entity_callback = (\<lambda>_. (None, None)), guard_condition_callback = (\<lambda>_. (None, None))\<rparr>)
     = Returned \<and>
   weak_nodes (fst (add_node 1
     \<lparr>has_executor = (\<lambda>_. False), weak_nodes = [], executor_context = None,
      executor_callback = None, timers_queue = [],
      entity_callback = (\<lambda>_. (None, None)), guard_condition_callback = (\<lambda>_. (None, None))\<rparr>))
     = [1] \<and>
   Destroy \<notin> set [AddNode 1, AddNode 1, RemoveNode 1 RCL_RET_OK, AddNode 1, AddNode 2, Execute] \<and>
   successful_adds 1 [AddNode 1, AddNode 1, RemoveNode 1 RCL_RET_OK, AddNode 1, AddNode 2, Execute]
     (snd (collector_calls
        \<lparr>node_lock = (\<lambda>_. True), get_callback_groups = (\<lambda>_. []), group_lock = (\<lambda>_. None),
         trigger_times = (\<lambda>_. 0)\<rparr>
        [AddNode 1, AddNode 1, RemoveNode 1 RCL_RET_OK, AddNode 1, AddNode 2, Execute]
        \<lparr>has_executor = (\<lambda>_. False), weak_nodes = [], executor_context = None,
         executor_callback = None, timers_queue = [],
         entity_callback = (\<lambda>_. (None, None)), guard_condition_callback = (\<lambda>_. (None, None))\<rparr>))
     \<le> 1 \<and>
   snd (add_node 1 (destructor
        \<lparr>node_lock = (\<lambda>_. True), get_callback_groups = (\<lambda>_. []), group_lock = (\<lambda>_. None),
         trigger_times = (\<lambda>_. 0)\<rparr>
        \<lparr>has_executor = (\<lambda>n. n = 1), weak_nodes = [1], executor_context = None,
         executor_callback = None, timers_queue = [],
         entity_callback = (\<lambda>_. (None, None)), guard_condition_callback = (\<lambda>_. (None, None))\<rparr>))
     = Returned \<and>
   (\<exists>u'. remove_node
        \<lparr>node_lock = (\<lambda>n. n \<noteq> 3),
         get_callback_groups = (\<lambda>n. if n = 1 then [10] else []),
         group_lock = (\<lambda>w. if w = 10
                            then Some \<lparr>can_be_taken_from = True, timer_ptrs = [Some 1],
                                       subscription_ptrs = [Some 7], service_ptrs = [],
                                       client_ptrs = [], waitable_ptrs = []\<rparr>
                            else None),
         trigger_times = (\<lambda>_. 0)\<rparr>
        RCL_RET_OK 1
        \<lparr>has_executor = (\<lambda>n. n = 1 \<or> n = 2), weak_nodes = [2, 1, 1],
         executor_context = Some 100, executor_callback = Some 200,
         timers_queue = [Some 1, Some 5],
         entity_callback = (\<lambda>_. (Some 100, Some 200)),
         guard_condition_callback = (\<lambda>_. (Some 100, Some 200))\<rparr> = (u', Returned) \<and>
      weak_nodes u' = [2, 1] \<and> has_executor u' 1 \<and> timers_queue u' = [Some 5] \<and>
      entity_callback u' (Subscription, 7) = (None, None) \<and>
      entity_callback u' (Service, 7) = (Some 100, Some 200) \<and>
      guard_condition_callback u' 1 = (None, None) \<and>
      guard_condition_callback u' 2 = (Some 100, Some 200) \<and>
      snd (add_node 1 u') = Threw (RuntimeError ''Node has already been added to an executor.''))"
proof -
  let ?g = "\<lparr>node_lock = (\<lambda>_. True), get_callback_groups = (\<lambda>_. []), group_lock = (\<lambda>_. None),
         trigger_times = (\<lambda>_. 0)\<rparr>"
  let ?s = "\<lparr>has_executor = (\<lambda>_. False), weak_nodes = [], executor_context = None,
      executor_callback = None, timers_queue = [],
      entity_callback = (\<lambda>_. (None, None)), guard_condition_callback = (\<lambda>_. (None, None))\<rparr>"
  let ?t = "\<lparr>has_executor = (\<lambda>n. n = 1), weak_nodes = [1], executor_context = None,
         executor_callback = None, timers_queue = [],
         entity_callback = (\<lambda>_. (None, None)), guard_condition_callback = (\<lambda>_. (None, None))\<rparr>"
  let ?cs = "[AddNode 1, AddNode 1, RemoveNode 1 RCL_RET_OK, AddNode 1, AddNode 2, Execute]"
  let ?h = "\<lparr>node_lock = (\<lambda>n. n \<noteq> 3),
         get_callback_groups = (\<lambda>n. if n = 1 then [10] else []),
         group_lock = (\<lambda>w. if w = 10
                            then Some \<lparr>can_be_taken_from = True, timer_ptrs = [Some 1],
                                       subscription_ptrs = [Some 7], service_ptrs = [],
                                       client_ptrs = [], waitable_ptrs = []\<rparr>
                            else None),
         trigger_times = (\<lambda>_. 0)\<rparr>"
  let ?u = "\<lparr>has_executor = (\<lambda>n. n = 1 \<or> n = 2), weak_nodes = [2, 1, 1],
         executor_context = Some 100, executor_callback = Some 200,
         timers_queue = [Some 1, Some 5],
         entity_callback = (\<lambda>_. (Some 100, Some 200)),
         guard_condition_callback = (\<lambda>_. (Some 100, Some 200))\<rparr>"
  have free: "\<not> has_executor ?s 1" by simp
  have nd: "Destroy \<notin> set ?cs" by simp
  have tracked: "1 \<in> set (weak_nodes ?t) \<and> node_lock ?g 1" by simp
  from node_single_ownership[of 1 ?s ?g RCL_RET_OK ?cs] free nd
  have a: "snd (add_node 1 ?s) = Returned"
    and b: "fst (add_node 1 ?s) = ?s\<lparr>has_executor := (has_executor ?s)(1 := True),
                              weak_nodes := weak_nodes ?s @ [1]\<rparr>"
    and c: "successful_adds 1 ?cs (snd (collector_calls ?g ?cs ?s)) \<le> 1"
    by simp_all
  from node_single_ownership[of 1 ?t ?g RCL_RET_OK ?cs] tracked
  have d: "snd (add_node 1 (destructor ?g ?t)) = Returned" by blast
  from b have b': "weak_nodes (fst (add_node 1 ?s)) = [1]" by simp
  define u' where "u' = fst (remove_node ?h RCL_RET_OK 1 ?u)"
  have held: "1 \<in> set (weak_nodes ?u) \<and> node_lock ?h 1" and flagged: "has_executor ?u 1"
    by simp_all
  note inst = node_single_ownership[of 1 ?u ?h RCL_RET_OK ?cs]
  from inst held have removed: "remove_node ?h RCL_RET_OK 1 ?u =
        (?u\<lparr>weak_nodes := remove1 1 (weak_nodes ?u),
           guard_condition_callback := (guard_condition_callback ?u)(1 := (None, None)),
           timers_queue := fold (\<lambda>a. remove_timer (Some a)) (node_timers ?h 1) (timers_queue ?u),
           entity_callback :=
             (\<lambda>k. if k \<in> node_entities ?h 1 then (None, None) else entity_callback ?u k)\<rparr>,
         Returned)"
    by blast
  from inst flagged have again: "snd (add_node 1 (fst (remove_node ?h RCL_RET_OK 1 ?u))) =
        Threw (RuntimeError ''Node has already been added to an executor.'')"
    by blast
  from inst have flags: "has_executor (fst (remove_node ?h RCL_RET_OK 1 ?u)) = has_executor ?u"
    by blast
  have e: "remove_node ?h RCL_RET_OK 1 ?u = (u', Returned)"
    unfolding u'_def removed by simp
  have f: "weak_nodes u' = [2, 1] \<and> timers_queue u' = [Some 5] \<and>
      entity_callback u' (Subscription, 7) = (None, None) \<and>
      entity_callback u' (Service, 7) = (Some 100, Some 200) \<and>
      guard_condition_callback u' 1 = (None, None) \<and>
      guard_condition_callback u' 2 = (Some 100, Some 200)"
    unfolding u'_def removed
    by (simp add: node_timers_def node_entities_def group_timers_def group_entities_def
        non_null_def)
  from flags have g: "has_executor u' 1" by (simp add: u'_def)
  from again have h: "snd (add_node 1 u') =
      Threw (RuntimeError ''Node has already been added to an executor.'')"
    by (simp add: u'_def)
  from a b' nd c d e f g h show ?thesis by blast
qed

end
